theory Spec2Isabelle
  imports Complex_Main "HOL-Library.Word"
begin

chapter \<open>IoT sensor platform: linked container, sensors, registry lookup, serial line reader\<close>

text \<open>
  The development follows the source files: \<^verbatim>\<open>Nodo.h\<close> and \<^verbatim>\<open>ListaSensor.h\<close> (a singly
  linked list of heap nodes with a stored element count), \<^verbatim>\<open>SensorBase.h\<close>,
  \<^verbatim>\<open>SensorTemperatura.h\<close> and \<^verbatim>\<open>SensorPresion.h\<close> (the two sensor classes),
  \<^verbatim>\<open>SerialPort.h\<close> (the line reader) and \<^verbatim>\<open>main.cpp\<close> (lookup by name and the body of
  the capture loop). All definitions come first, the theorems follow.
\<close>

section \<open>Definitions\<close>

subsection \<open>Nodo.h and ListaSensor.h: the list in an explicit memory\<close>

text \<open>
  A \<^verbatim>\<open>Nodo<T>*\<close> is an address or \<^verbatim>\<open>nullptr\<close> (\<open>None\<close>). The memory holds the
  allocated nodes and the \<^verbatim>\<open>ListaSensor<T>\<close> objects, each at an address of its own, so that
  two lists can share (or not share) nodes and \<^verbatim>\<open>this != &origen\<close> is a comparison of
  addresses. \<^verbatim>\<open>new Nodo<T>(contenido)\<close> takes the address \<open>libre\<close>, which is beyond every
  address handed out before; \<^verbatim>\<open>delete\<close> removes the node from the memory. Reading through
  a pointer to a node that is not allocated is undefined in C++; the model makes the whole call
  return \<open>None\<close>, as it does for a loop that never ends (a cyclic chain).

  \<^verbatim>\<open>elementos\<close> is a C++ \<^verbatim>\<open>int\<close>. It counts live nodes, one allocation each, and the
  model takes it as an unbounded integer: a list of \<open>2^31\<close> nodes is outside what the
  quadratic append of this container can build.
\<close>

type_synonym addr = nat

record 'a Nodo =
  dato :: 'a
  siguiente :: "addr option"

record ListaSensor =
  primero :: "addr option"
  elementos :: int

record 'a memoria =
  nodos :: "addr \<Rightarrow> 'a Nodo option"
  listas :: "addr \<Rightarrow> ListaSensor option"
  libre :: addr

definition mem_inicial :: "'a memoria" where
  "mem_inicial = \<lparr>nodos = (\<lambda>_. None), listas = (\<lambda>_. None), libre = 0\<rparr>"

text \<open>The default constructor, building the object at address \<open>this\<close>.\<close>

definition construir :: "'a memoria \<Rightarrow> addr \<Rightarrow> 'a memoria" where
  "construir m this = m\<lparr>listas := (listas m)(this \<mapsto> \<lparr>primero = None, elementos = 0\<rparr>)\<rparr>"

text \<open>The inner loop of \<^verbatim>\<open>insertarAlFinal\<close>: walk to the node whose \<^verbatim>\<open>siguiente\<close> is null.\<close>

partial_function (option) ultimo_nodo :: "(addr \<Rightarrow> 'a Nodo option) \<Rightarrow> addr \<Rightarrow> addr option" where
  "ultimo_nodo h navegador =
     (case h navegador of
        None \<Rightarrow> None
      | Some n \<Rightarrow> (case siguiente n of None \<Rightarrow> Some navegador | Some q \<Rightarrow> ultimo_nodo h q))"

definition insertarAlFinal :: "'a memoria \<Rightarrow> addr \<Rightarrow> 'a \<Rightarrow> 'a memoria option" where
  "insertarAlFinal m this contenido =
     (case listas m this of
        None \<Rightarrow> None
      | Some L \<Rightarrow>
          let nuevoElemento = libre m;
              h = (nodos m)(nuevoElemento \<mapsto> \<lparr>dato = contenido, siguiente = None\<rparr>);
              L' = L\<lparr>elementos := elementos L + 1\<rparr>
          in (case primero L of
                None \<Rightarrow>
                  Some (m\<lparr>nodos := h,
                          listas := (listas m)(this \<mapsto> L'\<lparr>primero := Some nuevoElemento\<rparr>),
                          libre := Suc nuevoElemento\<rparr>)
              | Some p \<Rightarrow>
                  (case ultimo_nodo h p of
                     None \<Rightarrow> None
                   | Some navegador \<Rightarrow>
                       (case h navegador of
                          None \<Rightarrow> None
                        | Some n \<Rightarrow>
                            Some (m\<lparr>nodos := h(navegador \<mapsto> n\<lparr>siguiente := Some nuevoElemento\<rparr>),
                                    listas := (listas m)(this \<mapsto> L'),
                                    libre := Suc nuevoElemento\<rparr>)))))"

definition getTamanio :: "'a memoria \<Rightarrow> addr \<Rightarrow> int option" where
  "getTamanio m this = map_option elementos (listas m this)"

definition estaVacia :: "'a memoria \<Rightarrow> addr \<Rightarrow> bool option" where
  "estaVacia m this = map_option (\<lambda>L. primero L = None) (listas m this)"

text \<open>
  \<^verbatim>\<open>iterar\<close>: the operation is a lambda that updates the variables it captured by
  reference; here it is a function from the element and the captured state to the new state.
\<close>

partial_function (option) iterar_desde ::
  "(addr \<Rightarrow> 'a Nodo option) \<Rightarrow> addr option \<Rightarrow> ('a \<Rightarrow> 's \<Rightarrow> 's) \<Rightarrow> 's \<Rightarrow> 's option" where
  "iterar_desde h navegador operacion s =
     (case navegador of
        None \<Rightarrow> Some s
      | Some a \<Rightarrow>
          (case h a of
             None \<Rightarrow> None
           | Some n \<Rightarrow> iterar_desde h (siguiente n) operacion (operacion (dato n) s)))"

definition iterar :: "'a memoria \<Rightarrow> addr \<Rightarrow> ('a \<Rightarrow> 's \<Rightarrow> 's) \<Rightarrow> 's \<Rightarrow> 's option" where
  "iterar m this operacion s =
     (case listas m this of
        None \<Rightarrow> None
      | Some L \<Rightarrow> iterar_desde (nodos m) (primero L) operacion s)"

text \<open>\<^verbatim>\<open>vaciar\<close>: one round of the loop deletes the head node and decrements the count.\<close>

partial_function (option) vaciar :: "'a memoria \<Rightarrow> addr \<Rightarrow> 'a memoria option" where
  "vaciar m this =
     (case listas m this of
        None \<Rightarrow> None
      | Some L \<Rightarrow>
          (case primero L of
             None \<Rightarrow> Some m
           | Some temporal \<Rightarrow>
               (case nodos m temporal of
                  None \<Rightarrow> None
                | Some n \<Rightarrow>
                    vaciar (m\<lparr>nodos := (nodos m)(temporal := None),
                               listas := (listas m)(this \<mapsto>
                                  L\<lparr>primero := siguiente n, elementos := elementos L - 1\<rparr>)\<rparr>)
                           this)))"

text \<open>
  \<^verbatim>\<open>duplicarDesde\<close>: the loop appends the value of the current node of the source to
  \<open>this\<close> and only then reads the \<^verbatim>\<open>siguiente\<close> field of that node, from the memory as the
  append left it.
\<close>

partial_function (option) duplicar_bucle ::
  "'a memoria \<Rightarrow> addr \<Rightarrow> addr option \<Rightarrow> 'a memoria option" where
  "duplicar_bucle m this navegadorOrigen =
     (case navegadorOrigen of
        None \<Rightarrow> Some m
      | Some a \<Rightarrow>
          (case nodos m a of
             None \<Rightarrow> None
           | Some n \<Rightarrow>
               (case insertarAlFinal m this (dato n) of
                  None \<Rightarrow> None
                | Some m' \<Rightarrow>
                    (case nodos m' a of
                       None \<Rightarrow> None
                     | Some n' \<Rightarrow> duplicar_bucle m' this (siguiente n')))))"

definition duplicarDesde :: "'a memoria \<Rightarrow> addr \<Rightarrow> addr \<Rightarrow> 'a memoria option" where
  "duplicarDesde m this origen =
     (case listas m origen of
        None \<Rightarrow> None
      | Some Lo \<Rightarrow> if primero Lo = None then Some m else duplicar_bucle m this (primero Lo))"

text \<open>The copy constructor builds the object at \<open>this\<close>; the assignment operator.\<close>

definition construir_copia :: "'a memoria \<Rightarrow> addr \<Rightarrow> addr \<Rightarrow> 'a memoria option" where
  "construir_copia m this origen = duplicarDesde (construir m this) this origen"

definition asignar :: "'a memoria \<Rightarrow> addr \<Rightarrow> addr \<Rightarrow> 'a memoria option" where
  "asignar m this origen =
     (if this \<noteq> origen
      then (case vaciar m this of None \<Rightarrow> None | Some m' \<Rightarrow> duplicarDesde m' this origen)
      else Some m)"

definition destruir :: "'a memoria \<Rightarrow> addr \<Rightarrow> 'a memoria option" where
  "destruir m this =
     (case vaciar m this of
        None \<Rightarrow> None
      | Some m' \<Rightarrow> Some (m'\<lparr>listas := (listas m')(this := None)\<rparr>))"

text \<open>
  Observers used in the statements: the addresses of the nodes reachable from a head, the
  values a list holds from head to tail (what \<^verbatim>\<open>iterar\<close> visits), and a run of appends.
\<close>

partial_function (option) nodos_desde ::
  "(addr \<Rightarrow> 'a Nodo option) \<Rightarrow> addr option \<Rightarrow> addr list option" where
  "nodos_desde h p =
     (case p of
        None \<Rightarrow> Some []
      | Some a \<Rightarrow>
          (case h a of
             None \<Rightarrow> None
           | Some n \<Rightarrow> Option.bind (nodos_desde h (siguiente n)) (\<lambda>as. Some (a # as))))"

text \<open>The loops are executable through their defining equations.\<close>

declare ultimo_nodo.simps [code] iterar_desde.simps [code] vaciar.simps [code]
  duplicar_bucle.simps [code] nodos_desde.simps [code]

definition nodos_de :: "'a memoria \<Rightarrow> addr \<Rightarrow> addr list option" where
  "nodos_de m this =
     (case listas m this of None \<Rightarrow> None | Some L \<Rightarrow> nodos_desde (nodos m) (primero L))"

definition secuencia_de :: "'a memoria \<Rightarrow> addr \<Rightarrow> 'a list option" where
  "secuencia_de m this = iterar m this (\<lambda>x visitados. visitados @ [x]) []"

fun insertar_todos :: "'a memoria \<Rightarrow> addr \<Rightarrow> 'a list \<Rightarrow> 'a memoria option" where
  "insertar_todos m this [] = Some m"
| "insertar_todos m this (v # vs) =
     (case insertarAlFinal m this v of None \<Rightarrow> None | Some m' \<Rightarrow> insertar_todos m' this vs)"

text \<open>
  What a deep copy \<open>B\<close> of \<open>A\<close> with values \<open>xs\<close> looks like in a memory: both lists hold
  \<open>xs\<close> and have its length as size, they share no node, and clearing \<open>B\<close> returns and
  leaves \<open>A\<close> with the same nodes, values and size.
\<close>

definition copia_independiente :: "'a memoria \<Rightarrow> addr \<Rightarrow> addr \<Rightarrow> 'a list \<Rightarrow> bool" where
  "copia_independiente m1 A B xs =
     (secuencia_de m1 B = Some xs \<and> getTamanio m1 B = Some (int (length xs)) \<and>
      secuencia_de m1 A = Some xs \<and> getTamanio m1 A = Some (int (length xs)) \<and>
      (case nodos_de m1 A of
         None \<Rightarrow> False
       | Some as \<Rightarrow> (case nodos_de m1 B of None \<Rightarrow> False | Some bs \<Rightarrow> set as \<inter> set bs = {})) \<and>
      (case vaciar m1 B of
         None \<Rightarrow> False
       | Some m2 \<Rightarrow>
           secuencia_de m2 B = Some [] \<and> getTamanio m2 B = Some 0 \<and>
           secuencia_de m2 A = Some xs \<and> getTamanio m2 A = Some (int (length xs)) \<and>
           nodos_de m2 A = nodos_de m1 A))"

text \<open>
  The memories a program reaches from the empty one through the public operations of the
  class: the two constructors, append, assignment, clear and the destructor. A constructor
  builds its object at an address that holds no list.
\<close>

inductive alcanzable :: "'a memoria \<Rightarrow> bool" where
  alc_inicial: "alcanzable mem_inicial"
| alc_construir: "alcanzable m \<Longrightarrow> listas m this = None \<Longrightarrow> alcanzable (construir m this)"
| alc_copia:
    "alcanzable m \<Longrightarrow> listas m this = None \<Longrightarrow> construir_copia m this origen = Some m' \<Longrightarrow>
     alcanzable m'"
| alc_insertar: "alcanzable m \<Longrightarrow> insertarAlFinal m this v = Some m' \<Longrightarrow> alcanzable m'"
| alc_asignar: "alcanzable m \<Longrightarrow> asignar m this origen = Some m' \<Longrightarrow> alcanzable m'"
| alc_vaciar: "alcanzable m \<Longrightarrow> vaciar m this = Some m' \<Longrightarrow> alcanzable m'"
| alc_destruir: "alcanzable m \<Longrightarrow> destruir m this = Some m' \<Longrightarrow> alcanzable m'"

text \<open>
  Proof vocabulary: \<open>cadena h p as\<close> says that following \<^verbatim>\<open>siguiente\<close> from \<open>p\<close> passes
  exactly the allocated nodes \<open>as\<close> and then reaches \<^verbatim>\<open>nullptr\<close>; \<open>valores\<close> reads their
  values; \<open>inv\<close> is the invariant of the reachable memories: nothing is allocated at or
  beyond \<open>libre\<close>, every list has a chain whose length is its stored count, and the chains
  of different lists share no node.
\<close>

primrec cadena :: "(addr \<Rightarrow> 'a Nodo option) \<Rightarrow> addr option \<Rightarrow> addr list \<Rightarrow> bool" where
  "cadena h p [] = (p = None)"
| "cadena h p (a # as) =
     (p = Some a \<and> (case h a of None \<Rightarrow> False | Some n \<Rightarrow> cadena h (siguiente n) as))"

definition valores :: "(addr \<Rightarrow> 'a Nodo option) \<Rightarrow> addr list \<Rightarrow> 'a list" where
  "valores h as = map (\<lambda>a. case h a of None \<Rightarrow> undefined | Some n \<Rightarrow> dato n) as"

definition lista_en :: "'a memoria \<Rightarrow> addr \<Rightarrow> addr list \<Rightarrow> bool" where
  "lista_en m l as =
     (case listas m l of
        None \<Rightarrow> False
      | Some L \<Rightarrow> cadena (nodos m) (primero L) as \<and> elementos L = int (length as))"

definition inv :: "'a memoria \<Rightarrow> bool" where
  "inv m =
     ((\<forall>a. libre m \<le> a \<longrightarrow> nodos m a = None) \<and>
      (\<exists>f. (\<forall>l. listas m l \<noteq> None \<longrightarrow> lista_en m l (f l)) \<and>
           (\<forall>l l'. l \<noteq> l' \<longrightarrow> listas m l \<noteq> None \<longrightarrow> listas m l' \<noteq> None \<longrightarrow>
                set (f l) \<inter> set (f l') = {})))"

text \<open>
  The sequence view of a list, for the classes that own one privately. A sensor creates its
  \<^verbatim>\<open>ListaSensor\<close> in its constructor and never shares it, so the sensor sections work with
  the sequence of values; the theorems \<open>insertarAlFinal_sec_ok\<close>, \<open>iterar_sec_ok\<close>,
  \<open>estaVacia_sec_ok\<close> and \<open>getTamanio_sec_ok\<close> below show that the memory-level
  operations compute exactly these.
\<close>

definition insertarAlFinal_sec :: "'a list \<Rightarrow> 'a \<Rightarrow> 'a list" where
  "insertarAlFinal_sec xs contenido = xs @ [contenido]"

definition iterar_sec :: "('a \<Rightarrow> 's \<Rightarrow> 's) \<Rightarrow> 'a list \<Rightarrow> 's \<Rightarrow> 's" where
  "iterar_sec operacion xs s = fold operacion xs s"

definition estaVacia_sec :: "'a list \<Rightarrow> bool" where
  "estaVacia_sec xs = (xs = [])"

definition getTamanio_sec :: "'a list \<Rightarrow> int" where
  "getTamanio_sec xs = int (length xs)"

subsection \<open>SensorBase.h, SensorTemperatura.h, SensorPresion.h\<close>

text \<open>
  The class hierarchy is a datatype with one constructor per concrete class, so that
  \<^verbatim>\<open>dynamic_cast\<close> is a case distinction. A \<^verbatim>\<open>float\<close> measurement is a rational number:
  the finite values of the type, compared exactly as \<^verbatim>\<open><\<close> compares them (the constant
  \<^verbatim>\<open>999999.0f\<close> is one of them). An \<^verbatim>\<open>int\<close> measurement is a 32-bit word read as a signed
  number with \<open>sint\<close>; the accumulator of the mean is such a word too, and its addition wraps
  around (signed overflow is undefined in C++, two's complement wrap-around is what the usual
  targets do). \<^verbatim>\<open>cantidadDatos\<close> counts nodes and is an unbounded integer, like
  \<^verbatim>\<open>elementos\<close>.

  The constructor of \<^verbatim>\<open>SensorBase\<close> copies at most 49 characters of the C string it is given.
\<close>

type_synonym int32 = "32 word"

datatype SensorBase =
    SensorTemperatura (getNombre: string) (historial_T: "rat list")
  | SensorPresion (getNombre: string) (historial_P: "int32 list")

definition SensorBase_nombre :: "string \<Rightarrow> string" where
  "SensorBase_nombre identificador = take 49 (takeWhile (\<lambda>c. c \<noteq> CHR 0x00) identificador)"

definition nuevo_SensorTemperatura :: "string \<Rightarrow> SensorBase" where
  "nuevo_SensorTemperatura identificador = SensorTemperatura (SensorBase_nombre identificador) []"

definition nuevo_SensorPresion :: "string \<Rightarrow> SensorBase" where
  "nuevo_SensorPresion identificador = SensorPresion (SensorBase_nombre identificador) []"

text \<open>
  What \<^verbatim>\<open>procesarLectura\<close> writes: the empty-record message, or the aggregate handed to the
  output stream (before the stream rounds it to one or two decimals). A division of the
  \<^verbatim>\<open>double\<close> by a zero count would give an infinity or a NaN; the model has a value of its
  own for that.
\<close>

datatype informe = RegistroVacio | ValorMinimo rat | MediaAritmetica rat | MediaNoFinita

definition procesarLectura_Temperatura :: "rat list \<Rightarrow> informe" where
  "procesarLectura_Temperatura registroMediciones =
     (if estaVacia_sec registroMediciones then RegistroVacio
      else ValorMinimo
             (iterar_sec (\<lambda>medida valorMinimo. if medida < valorMinimo then medida else valorMinimo)
                registroMediciones 999999))"

definition procesarLectura_Presion :: "int32 list \<Rightarrow> informe" where
  "procesarLectura_Presion registroMediciones =
     (if estaVacia_sec registroMediciones then RegistroVacio
      else
        (case iterar_sec (\<lambda>medida (acumulador, cantidadDatos). (acumulador + medida, cantidadDatos + 1))
                registroMediciones (0 :: int32, 0 :: int) of
           (acumulador, cantidadDatos) \<Rightarrow>
             if cantidadDatos = 0 then MediaNoFinita
             else MediaAritmetica (rat_of_int (sint acumulador) / rat_of_int cantidadDatos)))"

fun procesarLectura :: "SensorBase \<Rightarrow> informe" where
  "procesarLectura (SensorTemperatura nombre registroMediciones) =
     procesarLectura_Temperatura registroMediciones"
| "procesarLectura (SensorPresion nombre registroMediciones) =
     procesarLectura_Presion registroMediciones"

subsection \<open>main.cpp: lookup by name and one round of the capture loop\<close>

text \<open>
  The registry is a \<^verbatim>\<open>ListaSensor<SensorBase*>\<close>. Every sensor is created by \<^verbatim>\<open>new\<close> and
  appended to the registry at once, and nothing is removed before the program ends, so the
  \<open>i\<close>-th pointer of the registry is the \<open>i\<close>-th sensor ever created: the model keeps the
  sensor objects in a list and a \<^verbatim>\<open>SensorBase*\<close> is a position in it.

  The lookup is the lambda handed to \<^verbatim>\<open>iterar\<close> in \<^verbatim>\<open>capturarDatosHardware\<close> and in case 3
  of \<^verbatim>\<open>main\<close>: it overwrites the captured pointer at every sensor whose name equals the
  identifier.
\<close>

definition localizar :: "SensorBase list \<Rightarrow> string \<Rightarrow> nat option" where
  "localizar registro identificador =
     iterar_sec
       (\<lambda>dispositivo dispositivoExistente.
          if getNombre (registro ! dispositivo) = identificador then Some dispositivo
          else dispositivoExistente)
       [0 ..< length registro] None"

text \<open>
  Text extraction from the \<^verbatim>\<open>istringstream\<close>: \<^verbatim>\<open>>>\<close> skips white space, then reads one
  character, or a word up to the next white space; it fails at the end of the text.
  \<^verbatim>\<open>std::string::find\<close> is a search for a substring.
\<close>

definition isspace :: "char \<Rightarrow> bool" where
  "isspace c = (c \<in> {CHR '' '', CHR 0x09, CHR 0x0A, CHR 0x0B, CHR 0x0C, CHR 0x0D})"

definition extraer_char :: "string \<Rightarrow> (char \<times> string) option" where
  "extraer_char s = (case dropWhile isspace s of [] \<Rightarrow> None | c # r \<Rightarrow> Some (c, r))"

definition extraer_palabra :: "string \<Rightarrow> (string \<times> string) option" where
  "extraer_palabra s =
     (case dropWhile isspace s of
        [] \<Rightarrow> None
      | c # r \<Rightarrow> Some (takeWhile (\<lambda>x. \<not> isspace x) (c # r), dropWhile (\<lambda>x. \<not> isspace x) (c # r)))"

primrec es_prefijo :: "string \<Rightarrow> string \<Rightarrow> bool" where
  "es_prefijo [] s = True"
| "es_prefijo (c # cs) s = (case s of [] \<Rightarrow> False | d # ds \<Rightarrow> c = d \<and> es_prefijo cs ds)"

primrec contiene :: "string \<Rightarrow> string \<Rightarrow> bool" where
  "contiene patron [] = (patron = [])"
| "contiene patron (c # cs) = (es_prefijo patron (c # cs) \<or> contiene patron cs)"

text \<open>
  The lines \<^verbatim>\<open>main.cpp\<close> prints in the capture loop, and the state the loop carries: the
  registry and \<^verbatim>\<open>contadorLecturas\<close> (a C++ \<^verbatim>\<open>int\<close> that counts lines, taken as an
  unbounded integer). The extraction of a \<^verbatim>\<open>float\<close> and of an \<^verbatim>\<open>int\<close> from the rest of
  the line is the standard library's; the round takes both as parameters. Only the lines that
  \<^verbatim>\<open>main.cpp\<close> prints are recorded, not those of the sensor and list classes.
\<close>

datatype mensaje =
    RX string
  | WARN_formato
  | WARN_temperatura_invalida
  | WARN_presion_invalida
  | WARN_tipo_no_reconocido char
  | OK_termico_registrado string
  | OK_medicion_termica string rat
  | OK_presion_registrado string
  | OK_medicion_presion string int32
  | INFO_total int

record captura =
  registro :: "SensorBase list"
  contadorLecturas :: int

definition es_aviso :: "mensaje \<Rightarrow> bool" where
  "es_aviso msg =
     (case msg of
        WARN_formato \<Rightarrow> True
      | WARN_temperatura_invalida \<Rightarrow> True
      | WARN_presion_invalida \<Rightarrow> True
      | WARN_tipo_no_reconocido c \<Rightarrow> True
      | _ \<Rightarrow> False)"

definition contar :: "captura \<Rightarrow> captura \<times> mensaje list" where
  "contar st = (st\<lparr>contadorLecturas := contadorLecturas st + 1\<rparr>, [INFO_total (contadorLecturas st + 1)])"

definition procesar_linea ::
  "(string \<Rightarrow> rat option) \<Rightarrow> (string \<Rightarrow> int32 option) \<Rightarrow> captura \<Rightarrow> string \<Rightarrow> captura \<times> mensaje list" where
  "procesar_linea leer_float leer_int st buffer =
     (if contiene ''==='' buffer \<or> contiene ''Arduino'' buffer \<or> contiene ''Formato'' buffer \<or> buffer = []
      then (st, [])
      else
        (case extraer_char buffer of
           None \<Rightarrow> (st, [RX buffer, WARN_formato])
         | Some (tipoDispositivo, resto) \<Rightarrow>
        (case extraer_palabra resto of
           None \<Rightarrow> (st, [RX buffer, WARN_formato])
         | Some (identificador, resto') \<Rightarrow>
        let dispositivoExistente = localizar (registro st) identificador in
        if tipoDispositivo = CHR ''T'' \<or> tipoDispositivo = CHR ''t'' then
          (case leer_float resto' of
             None \<Rightarrow> (st, [RX buffer, WARN_temperatura_invalida])
           | Some medicion \<Rightarrow>
               (case dispositivoExistente of
                  None \<Rightarrow>
                    (case contar (st\<lparr>registro := insertarAlFinal_sec (registro st)
                             (SensorTemperatura (SensorBase_nombre identificador)
                                (insertarAlFinal_sec [] medicion))\<rparr>) of
                       (st', info) \<Rightarrow> (st', RX buffer # OK_termico_registrado identificador # info))
                | Some i \<Rightarrow>
                    (case registro st ! i of
                       SensorTemperatura nombre historial \<Rightarrow>
                         (case contar (st\<lparr>registro := (registro st)
                                  [i := SensorTemperatura nombre (insertarAlFinal_sec historial medicion)]\<rparr>) of
                            (st', info) \<Rightarrow>
                              (st', RX buffer # OK_medicion_termica identificador medicion # info))
                     | SensorPresion nombre historial \<Rightarrow>
                         (case contar st of (st', info) \<Rightarrow> (st', RX buffer # info)))))
        else if tipoDispositivo = CHR ''P'' \<or> tipoDispositivo = CHR ''p'' then
          (case leer_int resto' of
             None \<Rightarrow> (st, [RX buffer, WARN_presion_invalida])
           | Some medicion \<Rightarrow>
               (case dispositivoExistente of
                  None \<Rightarrow>
                    (case contar (st\<lparr>registro := insertarAlFinal_sec (registro st)
                             (SensorPresion (SensorBase_nombre identificador)
                                (insertarAlFinal_sec [] medicion))\<rparr>) of
                       (st', info) \<Rightarrow> (st', RX buffer # OK_presion_registrado identificador # info))
                | Some i \<Rightarrow>
                    (case registro st ! i of
                       SensorPresion nombre historial \<Rightarrow>
                         (case contar (st\<lparr>registro := (registro st)
                                  [i := SensorPresion nombre (insertarAlFinal_sec historial medicion)]\<rparr>) of
                            (st', info) \<Rightarrow>
                              (st', RX buffer # OK_medicion_presion identificador medicion # info))
                     | SensorTemperatura nombre historial \<Rightarrow>
                         (case contar st of (st', info) \<Rightarrow> (st', RX buffer # info)))))
        else (st, [RX buffer, WARN_tipo_no_reconocido tipoDispositivo]))))"

subsection \<open>SerialPort.h\<close>

text \<open>
  The port object, and the transport as the results the successive calls of
  \<^verbatim>\<open>read(descriptorArchivo, &caracter, 1)\<close> give: a negative count, zero, or one character.
  \<^verbatim>\<open>leerLinea\<close> returns after finitely many reads or never; on a finite run of results
  that ends while the loop is still polling, the model returns \<open>None\<close>. The result carries
  the returned flag, the string left in \<^verbatim>\<open>secuencia\<close>, the port and the results not yet
  consumed.
\<close>

record SerialPort =
  descriptorArchivo :: int
  estadoConexion :: bool

datatype lectura = FalloLectura | BufferVacio | Caracter char

definition nuevo_SerialPort :: SerialPort where
  "nuevo_SerialPort = \<lparr>descriptorArchivo = - 1, estadoConexion = False\<rparr>"

text \<open>\<^verbatim>\<open>abrir\<close>, given the descriptor \<^verbatim>\<open>open\<close> returned (negative on failure).\<close>

definition abrir :: "SerialPort \<Rightarrow> int \<Rightarrow> bool \<times> SerialPort" where
  "abrir p fd =
     (if fd < 0 then (False, p\<lparr>descriptorArchivo := fd\<rparr>)
      else (True, p\<lparr>descriptorArchivo := fd, estadoConexion := True\<rparr>))"

definition cerrar :: "SerialPort \<Rightarrow> SerialPort" where
  "cerrar p =
     (if estadoConexion p \<and> descriptorArchivo p \<ge> 0
      then p\<lparr>descriptorArchivo := - 1, estadoConexion := False\<rparr>
      else p)"

definition es_terminador :: "char \<Rightarrow> bool" where
  "es_terminador caracter = (caracter = CHR 0x0A \<or> caracter = CHR 0x0D)"

fun leerLinea_bucle :: "lectura list \<Rightarrow> string \<Rightarrow> (bool \<times> string \<times> lectura list) option" where
  "leerLinea_bucle [] secuencia = None"
| "leerLinea_bucle (FalloLectura # rs) secuencia = Some (False, secuencia, rs)"
| "leerLinea_bucle (BufferVacio # rs) secuencia = leerLinea_bucle rs secuencia"
| "leerLinea_bucle (Caracter caracter # rs) secuencia =
     (if es_terminador caracter
      then (if secuencia \<noteq> [] then Some (True, secuencia, rs) else leerLinea_bucle rs secuencia)
      else leerLinea_bucle rs (secuencia @ [caracter]))"

definition leerLinea ::
  "SerialPort \<Rightarrow> string \<Rightarrow> lectura list \<Rightarrow> (bool \<times> string \<times> SerialPort \<times> lectura list) option" where
  "leerLinea p secuencia rs =
     (if \<not> estadoConexion p \<or> descriptorArchivo p < 0 then Some (False, secuencia, p, rs)
      else
        (case leerLinea_bucle rs [] of
           None \<Rightarrow> None
         | Some (ok, linea, resto) \<Rightarrow> Some (ok, linea, p, resto)))"

text \<open>The characters among a run of read results, in order.\<close>

fun caracteres :: "lectura list \<Rightarrow> string" where
  "caracteres [] = []"
| "caracteres (Caracter c # rs) = c # caracteres rs"
| "caracteres (r # rs) = caracteres rs"

definition estaAbierto :: "SerialPort \<Rightarrow> bool" where
  "estaAbierto p = estadoConexion p"

text \<open>
  Vocabulary of the line-framing theorem: the reads \<^verbatim>\<open>leerLinea\<close> passes over before a
  line starts (empty reads, and terminators while \<^verbatim>\<open>secuencia\<close> is still empty), the reads
  that make up the body of a line (empty reads and characters other than terminators), and an
  open port for the examples.
\<close>

definition saltable :: "bool \<Rightarrow> lectura \<Rightarrow> bool" where
  "saltable vacia r = (r = BufferVacio \<or> (vacia \<and> (\<exists>c. r = Caracter c \<and> es_terminador c)))"

definition de_cuerpo :: "lectura \<Rightarrow> bool" where
  "de_cuerpo r = (r = BufferVacio \<or> (\<exists>c. r = Caracter c \<and> \<not> es_terminador c))"

definition puerto_abierto :: SerialPort where
  "puerto_abierto = snd (abrir nuevo_SerialPort 3)"

section \<open>Theorems\<close>

subsection \<open>The linked list\<close>

subsubsection \<open>Chains\<close>

lemma cadena_func: "cadena h p as \<Longrightarrow> cadena h p bs \<Longrightarrow> as = bs"
proof (induction as arbitrary: p bs)
  case Nil
  then show ?case by (cases bs) auto
next
  case (Cons a as)
  then show ?case by (cases bs) (auto split: option.splits)
qed

lemma cadena_asignado: "cadena h p as \<Longrightarrow> a \<in> set as \<Longrightarrow> h a \<noteq> None"
  by (induction as arbitrary: p) (auto split: option.splits)

lemma cadena_marco: "cadena h p as \<Longrightarrow> \<forall>a\<in>set as. h' a = h a \<Longrightarrow> cadena h' p as"
  by (induction as arbitrary: p) (auto split: option.splits)

lemma cadena_sufijo: "cadena h p (xs @ ys) \<Longrightarrow> \<exists>q. cadena h q ys"
  by (induction xs arbitrary: p) (auto split: option.splits)

lemma cadena_distinct: "cadena h p as \<Longrightarrow> distinct as"
proof (induction as arbitrary: p)
  case Nil
  then show ?case by simp
next
  case (Cons a as)
  then obtain n where n: "h a = Some n" "cadena h (siguiente n) as" "p = Some a"
    by (auto split: option.splits)
  have "a \<notin> set as"
  proof
    assume "a \<in> set as"
    then obtain xs ys where s: "as = xs @ a # ys" by (auto simp: in_set_conv_decomp)
    with n(2) obtain q where "cadena h q (a # ys)" using cadena_sufijo by blast
    then have "cadena h (siguiente n) ys" using n(1) by simp
    from cadena_func [OF this n(2)] s show False by simp
  qed
  then show ?case using Cons.IH [OF n(2)] by simp
qed

lemma valores_marco: "\<forall>a\<in>set as. h' a = h a \<Longrightarrow> valores h' as = valores h as"
  by (simp add: valores_def)

lemma valores_append: "valores h (as @ bs) = valores h as @ valores h bs"
  by (simp add: valores_def)

lemma length_valores: "length (valores h as) = length as"
  by (simp add: valores_def)

lemma nodos_desde_cadena: "cadena h p as \<Longrightarrow> nodos_desde h p = Some as"
proof (induction as arbitrary: p)
  case Nil
  then show ?case by (simp add: nodos_desde.simps)
next
  case (Cons a as)
  then obtain n where n: "h a = Some n" "cadena h (siguiente n) as" "p = Some a"
    by (auto split: option.splits)
  show ?case using Cons.IH [OF n(2)] n(1,3) by (subst nodos_desde.simps) simp
qed

lemma iterar_desde_cadena:
  "cadena h p as \<Longrightarrow> iterar_desde h p operacion s = Some (fold operacion (valores h as) s)"
proof (induction as arbitrary: p s)
  case Nil
  then show ?case by (simp add: iterar_desde.simps valores_def)
next
  case (Cons a as)
  then obtain n where n: "h a = Some n" "cadena h (siguiente n) as" "p = Some a"
    by (auto split: option.splits)
  show ?case using Cons.IH [OF n(2)] n(1,3)
    by (subst iterar_desde.simps) (simp add: valores_def)
qed

lemma ultimo_nodo_cadena:
  "cadena h (Some p) as \<Longrightarrow>
     ultimo_nodo h p = Some (last as) \<and> (\<exists>n. h (last as) = Some n \<and> siguiente n = None)"
proof (induction as arbitrary: p)
  case Nil
  then show ?case by simp
next
  case (Cons a as)
  then obtain n where n: "h a = Some n" "cadena h (siguiente n) as" "p = a"
    by (auto split: option.splits)
  show ?case
  proof (cases as)
    case Nil
    then show ?thesis using n by (subst ultimo_nodo.simps) simp
  next
    case (Cons b bs)
    then have q: "siguiente n = Some b" using n(2) by simp
    from Cons.IH [of b] n(2) q Cons
    have "ultimo_nodo h b = Some (last as) \<and> (\<exists>n. h (last as) = Some n \<and> siguiente n = None)"
      using Cons.IH by (metis Cons.IH n(2))
    then show ?thesis using n(1,3) q Cons by (subst ultimo_nodo.simps) simp
  qed
qed

lemma cadena_snoc:
  "cadena h p as \<Longrightarrow> as \<noteq> [] \<Longrightarrow> h (last as) = Some n \<Longrightarrow> nuevo \<notin> set as \<Longrightarrow>
   h nuevo = Some nn \<Longrightarrow> siguiente nn = None \<Longrightarrow>
   cadena (h(last as \<mapsto> n\<lparr>siguiente := Some nuevo\<rparr>)) p (as @ [nuevo])"
proof (induction as arbitrary: p)
  case Nil
  then show ?case by simp
next
  case (Cons a as)
  then obtain na where na: "h a = Some na" "cadena h (siguiente na) as" "p = Some a"
    by (auto split: option.splits)
  show ?case
  proof (cases as)
    case Nil
    then show ?thesis using Cons.prems na by auto
  next
    case (Cons b bs)
    have l: "last (a # as) = last as" using Cons by simp
    have d: "a \<noteq> last as" using cadena_distinct [OF Cons.prems(1)] Cons by auto
    define h' where "h' = h(last as \<mapsto> n\<lparr>siguiente := Some nuevo\<rparr>)"
    have ne: "as \<noteq> []" using Cons by simp
    have hl: "h (last as) = Some n" using Cons.prems(3) l by simp
    have nu: "nuevo \<notin> set as" using Cons.prems(4) by simp
    have "cadena h' (siguiente na) (as @ [nuevo])"
      unfolding h'_def by (rule Cons.IH [OF na(2) ne hl nu Cons.prems(5,6)])
    moreover have "h' a = Some na" unfolding h'_def using na(1) d by simp
    ultimately have "cadena h' p ((a # as) @ [nuevo])" using na(3) by simp
    then show ?thesis unfolding h'_def l .
  qed
qed

subsubsection \<open>The invariant\<close>

lemma lista_en_func: "lista_en m l as \<Longrightarrow> lista_en m l bs \<Longrightarrow> as = bs"
  by (auto simp: lista_en_def split: option.splits dest: cadena_func)

lemma lista_en_existe: "inv m \<Longrightarrow> listas m l \<noteq> None \<Longrightarrow> \<exists>as. lista_en m l as"
  unfolding inv_def by blast

lemma lista_en_listas: "lista_en m l as \<Longrightarrow> listas m l \<noteq> None"
  by (auto simp: lista_en_def split: option.splits)

lemma lista_en_disjuntas:
  assumes "inv m" "l \<noteq> l'" "lista_en m l as" "lista_en m l' as'"
  shows "set as \<inter> set as' = {}"
proof -
  from assms(1) obtain f where
    f: "\<forall>l. listas m l \<noteq> None \<longrightarrow> lista_en m l (f l)"
       "\<forall>l l'. l \<noteq> l' \<longrightarrow> listas m l \<noteq> None \<longrightarrow> listas m l' \<noteq> None \<longrightarrow> set (f l) \<inter> set (f l') = {}"
    unfolding inv_def by blast
  have e: "listas m l \<noteq> None" "listas m l' \<noteq> None"
    using assms(3,4) by (auto dest: lista_en_listas)
  have "f l = as" "f l' = as'"
    using f(1) e assms(3,4) by (auto dest: lista_en_func)
  then show ?thesis using f(2) e assms(2) by blast
qed

lemma lista_en_bajo_libre:
  assumes "inv m" "lista_en m l as" "a \<in> set as"
  shows "a < libre m"
proof (rule ccontr)
  assume "\<not> a < libre m"
  then have "nodos m a = None" using assms(1) unfolding inv_def by simp
  moreover have "nodos m a \<noteq> None"
    using assms(2,3) by (auto simp: lista_en_def split: option.splits dest: cadena_asignado)
  ultimately show False by simp
qed

lemma inv_libre: "inv m \<Longrightarrow> libre m \<le> a \<Longrightarrow> nodos m a = None"
  unfolding inv_def by simp

lemma invI:
  assumes "\<forall>a. libre m \<le> a \<longrightarrow> nodos m a = None"
    and "\<forall>l. listas m l \<noteq> None \<longrightarrow> lista_en m l (f l)"
    and "\<forall>l l'. l \<noteq> l' \<longrightarrow> listas m l \<noteq> None \<longrightarrow> listas m l' \<noteq> None \<longrightarrow> set (f l) \<inter> set (f l') = {}"
  shows "inv m"
  unfolding inv_def using assms by blast

lemma inv_obtener:
  assumes "inv m"
  obtains f where "\<forall>l. listas m l \<noteq> None \<longrightarrow> lista_en m l (f l)"
    and "\<forall>l l'. l \<noteq> l' \<longrightarrow> listas m l \<noteq> None \<longrightarrow> listas m l' \<noteq> None \<longrightarrow> set (f l) \<inter> set (f l') = {}"
  using assms unfolding inv_def by blast

lemma valores_dato:
  "\<forall>a\<in>set as. map_option dato (h' a) = map_option dato (h a) \<Longrightarrow> valores h' as = valores h as"
  unfolding valores_def
  by (rule map_cong) (auto split: option.splits)

text \<open>A list changes its chain, the others keep theirs: the invariant is preserved.\<close>

lemma inv_cambio:
  assumes i: "inv m" and la: "lista_en m l as"
    and li: "listas m' = (listas m)(l \<mapsto> L')"
    and c': "cadena (nodos m') (primero L') as'" "elementos L' = int (length as')"
    and fuera: "\<forall>a. a \<notin> set as \<longrightarrow> a \<notin> set as' \<longrightarrow> nodos m' a = nodos m a"
    and nuevos: "\<forall>a\<in>set as'. a \<in> set as \<or> (libre m \<le> a \<and> a < libre m')"
    and fr: "libre m \<le> libre m'" "\<forall>a. libre m' \<le> a \<longrightarrow> nodos m' a = None"
  shows "inv m' \<and> lista_en m' l as' \<and>
         (\<forall>k bs. k \<noteq> l \<longrightarrow> lista_en m k bs \<longrightarrow> lista_en m' k bs \<and> (\<forall>a\<in>set bs. nodos m' a = nodos m a))"
proof -
  have otros: "lista_en m' k bs \<and> (\<forall>a\<in>set bs. nodos m' a = nodos m a) \<and> set bs \<inter> set as' = {}"
    if k: "k \<noteq> l" "lista_en m k bs" for k bs
  proof -
    have d: "set bs \<inter> set as = {}" using lista_en_disjuntas [OF i k(1) k(2) la] .
    have b: "\<forall>a\<in>set bs. a < libre m" using lista_en_bajo_libre [OF i k(2)] by blast
    have d': "set bs \<inter> set as' = {}" using d b nuevos by fastforce
    have eq: "\<forall>a\<in>set bs. nodos m' a = nodos m a" using d d' fuera by blast
    have "lista_en m' k bs"
      using k eq li by (auto simp: lista_en_def split: option.splits intro: cadena_marco)
    then show ?thesis using eq d' by simp
  qed
  have este: "lista_en m' l as'" using li c' by (simp add: lista_en_def)
  from i obtain f where f: "\<forall>l. listas m l \<noteq> None \<longrightarrow> lista_en m l (f l)"
    by (rule inv_obtener)
  have "inv m'"
  proof (rule invI [where f = "f(l := as')"])
    show "\<forall>a. libre m' \<le> a \<longrightarrow> nodos m' a = None" by (rule fr(2))
    show "\<forall>k. listas m' k \<noteq> None \<longrightarrow> lista_en m' k ((f(l := as')) k)"
      using este otros f li by auto
    show "\<forall>k k'. k \<noteq> k' \<longrightarrow> listas m' k \<noteq> None \<longrightarrow> listas m' k' \<noteq> None \<longrightarrow>
            set ((f(l := as')) k) \<inter> set ((f(l := as')) k') = {}"
    proof (intro allI impI)
      fix k k' assume kk: "k \<noteq> k'" "listas m' k \<noteq> None" "listas m' k' \<noteq> None"
      show "set ((f(l := as')) k) \<inter> set ((f(l := as')) k') = {}"
      proof (cases "k = l")
        case True
        then have "lista_en m k' (f k')" using kk f li by auto
        then show ?thesis using otros [of k' "f k'"] kk(1) True by auto
      next
        case False
        then have a: "lista_en m k (f k)" using kk f li by auto
        show ?thesis
        proof (cases "k' = l")
          case True
          then show ?thesis using otros [OF False a] False by auto
        next
          case False': False
          then have "lista_en m k' (f k')" using kk f li by auto
          then show ?thesis using lista_en_disjuntas [OF i kk(1) a] False False' by simp
        qed
      qed
    qed
  qed
  then show ?thesis using este otros by blast
qed

subsubsection \<open>Append\<close>

lemma insertarAlFinal_ok:
  assumes i: "inv m" and la: "lista_en m l as"
  shows "\<exists>m'. insertarAlFinal m l v = Some m' \<and> inv m' \<and> lista_en m' l (as @ [libre m]) \<and>
           valores (nodos m') (as @ [libre m]) = valores (nodos m) as @ [v] \<and>
           dom (listas m') = dom (listas m) \<and>
           (\<forall>k bs. k \<noteq> l \<longrightarrow> lista_en m k bs \<longrightarrow>
               lista_en m' k bs \<and> (\<forall>a\<in>set bs. nodos m' a = nodos m a))"
proof -
  from la obtain L where L: "listas m l = Some L" "cadena (nodos m) (primero L) as"
    "elementos L = int (length as)"
    by (auto simp: lista_en_def split: option.splits)
  define nuevo where "nuevo = libre m"
  define N :: "'a Nodo" where "N = \<lparr>dato = v, siguiente = None\<rparr>"
  define h where "h = (nodos m)(nuevo \<mapsto> N)"
  have nas: "nuevo \<notin> set as" using lista_en_bajo_libre [OF i la] nuevo_def by blast
  have bajo: "\<forall>a\<in>set as. a < libre m" using lista_en_bajo_libre [OF i la] by blast
  have ch: "cadena h (primero L) as"
    using L(2) nas by (auto simp: h_def intro: cadena_marco)
  have hn: "h nuevo = Some N" "siguiente N = None" "dato N = v" by (simp_all add: h_def N_def)
  have "\<exists>m' L'. insertarAlFinal m l v = Some m' \<and> listas m' = (listas m)(l \<mapsto> L') \<and>
          cadena (nodos m') (primero L') (as @ [nuevo]) \<and> elementos L' = elementos L + 1 \<and>
          libre m' = Suc nuevo \<and> nodos m' nuevo = Some N \<and>
          (\<forall>a. a \<noteq> nuevo \<longrightarrow> map_option dato (nodos m' a) = map_option dato (nodos m a)) \<and>
          (\<forall>a. a \<notin> set as \<longrightarrow> a \<noteq> nuevo \<longrightarrow> nodos m' a = nodos m a) \<and>
          (\<forall>a. nodos m a = None \<longrightarrow> a \<noteq> nuevo \<longrightarrow> nodos m' a = None)"
  proof (cases as)
    case Nil
    then have p: "primero L = None" using L(2) by simp
    define L' where "L' = L\<lparr>elementos := elementos L + 1, primero := Some nuevo\<rparr>"
    define m' where "m' = m\<lparr>nodos := h, listas := (listas m)(l \<mapsto> L'), libre := Suc nuevo\<rparr>"
    have "insertarAlFinal m l v = Some m'"
      using L(1) p
      by (simp add: insertarAlFinal_def Let_def m'_def L'_def h_def N_def nuevo_def)
    moreover have "listas m' = (listas m)(l \<mapsto> L')" "libre m' = Suc nuevo" "nodos m' = h"
      "primero L' = Some nuevo" "elementos L' = elementos L + 1"
      by (simp_all add: m'_def L'_def)
    moreover have "cadena h (Some nuevo) ([] @ [nuevo])" using hn by simp
    ultimately show ?thesis using Nil hn
      by (intro exI [of _ m'] exI [of _ L']) (simp add: h_def)
  next
    case (Cons b bs)
    then have p: "primero L = Some b" and ne: "as \<noteq> []" using L(2) by simp_all
    from ultimo_nodo_cadena [of h b as] ch p obtain n where
      u: "ultimo_nodo h b = Some (last as)" "h (last as) = Some n" "siguiente n = None"
      by auto
    have c: "cadena (h(last as \<mapsto> n\<lparr>siguiente := Some nuevo\<rparr>)) (primero L) (as @ [nuevo])"
      by (rule cadena_snoc [OF ch ne u(2) nas hn(1,2)])
    have ln: "last as \<noteq> nuevo" using nas ne by (metis last_in_set)
    have lin: "last as \<in> set as" using ne by simp
    have n0: "nodos m (last as) = Some n" using u(2) ln by (simp add: h_def)
    define L' where "L' = L\<lparr>elementos := elementos L + 1\<rparr>"
    define h' where "h' = h(last as \<mapsto> n\<lparr>siguiente := Some nuevo\<rparr>)"
    define m' where "m' = m\<lparr>nodos := h', listas := (listas m)(l \<mapsto> L'), libre := Suc nuevo\<rparr>"
    have "insertarAlFinal m l v = Some m'"
      using L(1) p u(1,2)
      by (simp add: insertarAlFinal_def Let_def nuevo_def [symmetric] N_def [symmetric]
          h_def [symmetric] m'_def L'_def h'_def)
    moreover have "listas m' = (listas m)(l \<mapsto> L')" "libre m' = Suc nuevo" "nodos m' = h'"
      "primero L' = primero L" "elementos L' = elementos L + 1"
      by (simp_all add: m'_def L'_def)
    moreover have "cadena h' (primero L) (as @ [nuevo])" using c by (simp add: h'_def)
    moreover have "h' nuevo = Some N" using hn(1) ln by (simp add: h'_def)
    moreover have "\<forall>a. a \<noteq> nuevo \<longrightarrow> map_option dato (h' a) = map_option dato (nodos m a)"
      using n0 by (simp add: h'_def h_def)
    moreover have "\<forall>a. a \<notin> set as \<longrightarrow> a \<noteq> nuevo \<longrightarrow> h' a = nodos m a"
      using lin by (auto simp: h'_def h_def)
    moreover have "\<forall>a. nodos m a = None \<longrightarrow> a \<noteq> nuevo \<longrightarrow> h' a = None"
      using n0 by (auto simp: h'_def h_def)
    ultimately show ?thesis
      by (intro exI [of _ m'] exI [of _ L']) simp
  qed
  then obtain m' L' where m': "insertarAlFinal m l v = Some m'" "listas m' = (listas m)(l \<mapsto> L')"
    "cadena (nodos m') (primero L') (as @ [nuevo])" "elementos L' = elementos L + 1"
    "libre m' = Suc nuevo" "nodos m' nuevo = Some N"
    "\<forall>a. a \<noteq> nuevo \<longrightarrow> map_option dato (nodos m' a) = map_option dato (nodos m a)"
    "\<forall>a. a \<notin> set as \<longrightarrow> a \<noteq> nuevo \<longrightarrow> nodos m' a = nodos m a"
    "\<forall>a. nodos m a = None \<longrightarrow> a \<noteq> nuevo \<longrightarrow> nodos m' a = None"
    by blast
  have e: "elementos L' = int (length (as @ [nuevo]))" using m'(4) L(3) by simp
  have fuera: "\<forall>a. a \<notin> set as \<longrightarrow> a \<notin> set (as @ [nuevo]) \<longrightarrow> nodos m' a = nodos m a"
    using m'(8) by simp
  have nuevos: "\<forall>a\<in>set (as @ [nuevo]). a \<in> set as \<or> (libre m \<le> a \<and> a < libre m')"
    using m'(5) by (simp add: nuevo_def)
  have fr: "libre m \<le> libre m'" "\<forall>a. libre m' \<le> a \<longrightarrow> nodos m' a = None"
    using m'(5,9) inv_libre [OF i] by (auto simp: nuevo_def)
  note r = inv_cambio [OF i la m'(2) m'(3) e fuera nuevos fr]
  have "valores (nodos m') as = valores (nodos m) as"
    using m'(7) nas by (intro valores_dato) auto
  then have v: "valores (nodos m') (as @ [nuevo]) = valores (nodos m) as @ [v]"
    using m'(6) hn(3) by (simp add: valores_append) (simp add: valores_def)
  have d: "dom (listas m') = dom (listas m)" using m'(2) L(1) by auto
  show ?thesis using m'(1) r v d unfolding nuevo_def by blast
qed

subsubsection \<open>Clear\<close>

lemma vaciar_ok:
  assumes "inv m" "lista_en m l as"
  shows "\<exists>m'. vaciar m l = Some m' \<and> inv m' \<and> lista_en m' l [] \<and> libre m' = libre m \<and>
           dom (listas m') = dom (listas m) \<and>
           (\<forall>a. a \<notin> set as \<longrightarrow> nodos m' a = nodos m a) \<and>
           (\<forall>k bs. k \<noteq> l \<longrightarrow> lista_en m k bs \<longrightarrow>
               lista_en m' k bs \<and> (\<forall>a\<in>set bs. nodos m' a = nodos m a))"
  using assms
proof (induction as arbitrary: m)
  case Nil
  then obtain L where L: "listas m l = Some L" "primero L = None"
    by (auto simp: lista_en_def split: option.splits)
  then have "vaciar m l = Some m" by (subst vaciar.simps) simp
  then show ?case using Nil by simp
next
  case (Cons b bs)
  note i = Cons.prems(1) and la = Cons.prems(2)
  from la obtain L n where L: "listas m l = Some L" "primero L = Some b" "nodos m b = Some n"
    "cadena (nodos m) (siguiente n) bs" "elementos L = int (length (b # bs))"
    by (auto simp: lista_en_def split: option.splits)
  define L' where "L' = L\<lparr>primero := siguiente n, elementos := elementos L - 1\<rparr>"
  define m1 where "m1 = m\<lparr>nodos := (nodos m)(b := None), listas := (listas m)(l \<mapsto> L')\<rparr>"
  have paso: "vaciar m l = vaciar m1 l"
    using L(1,2,3) by (subst vaciar.simps) (simp add: m1_def L'_def)
  have nb: "b \<notin> set bs" using cadena_distinct [of "nodos m" "primero L" "b # bs"] la L(1)
    by (auto simp: lista_en_def)
  have c: "cadena (nodos m1) (primero L') bs"
    using L(4) nb by (auto simp: m1_def L'_def intro: cadena_marco)
  have e: "elementos L' = int (length bs)" using L(5) by (simp add: L'_def)
  have li: "listas m1 = (listas m)(l \<mapsto> L')" by (simp add: m1_def)
  have fuera: "\<forall>a. a \<notin> set (b # bs) \<longrightarrow> a \<notin> set bs \<longrightarrow> nodos m1 a = nodos m a"
    by (simp add: m1_def)
  have nuevos: "\<forall>a\<in>set bs. a \<in> set (b # bs) \<or> (libre m \<le> a \<and> a < libre m1)" by simp
  have fr: "libre m \<le> libre m1" "\<forall>a. libre m1 \<le> a \<longrightarrow> nodos m1 a = None"
    using inv_libre [OF i] by (simp_all add: m1_def)
  note r = inv_cambio [OF i la li c e fuera nuevos fr]
  from r have i1: "inv m1" and l1: "lista_en m1 l bs" by simp_all
  from Cons.IH [OF i1 l1] obtain m' where m': "vaciar m1 l = Some m'" "inv m'" "lista_en m' l []"
    "libre m' = libre m1" "dom (listas m') = dom (listas m1)"
    "\<forall>a. a \<notin> set bs \<longrightarrow> nodos m' a = nodos m1 a"
    "\<forall>k cs. k \<noteq> l \<longrightarrow> lista_en m1 k cs \<longrightarrow>
        lista_en m' k cs \<and> (\<forall>a\<in>set cs. nodos m' a = nodos m1 a)"
    by blast
  have "libre m' = libre m" using m'(4) by (simp add: m1_def)
  moreover have "dom (listas m') = dom (listas m)" using m'(5) L(1) by (auto simp: m1_def)
  moreover have "\<forall>a. a \<notin> set (b # bs) \<longrightarrow> nodos m' a = nodos m a"
    using m'(6) by (simp add: m1_def)
  moreover have "\<forall>k cs. k \<noteq> l \<longrightarrow> lista_en m k cs \<longrightarrow>
        lista_en m' k cs \<and> (\<forall>a\<in>set cs. nodos m' a = nodos m a)"
    using r m'(7) by (metis (no_types, lifting))
  ultimately show ?case using paso m'(1,2,3) by simp
qed

lemma vaciar_vacia: "lista_en m l [] \<Longrightarrow> vaciar m l = Some m"
  by (subst vaciar.simps) (auto simp: lista_en_def split: option.splits)

subsubsection \<open>Constructors, copy and assignment\<close>

lemma construir_ok:
  assumes i: "inv m" and n: "listas m l = None"
  shows "inv (construir m l) \<and> lista_en (construir m l) l [] \<and>
         (\<forall>k bs. k \<noteq> l \<longrightarrow> lista_en m k bs \<longrightarrow> lista_en (construir m l) k bs)"
proof -
  have este: "lista_en (construir m l) l []" by (simp add: construir_def lista_en_def)
  have otros: "lista_en (construir m l) k bs" if "k \<noteq> l" "lista_en m k bs" for k bs
    using that by (auto simp: construir_def lista_en_def split: option.splits)
  from i obtain f where f: "\<forall>l. listas m l \<noteq> None \<longrightarrow> lista_en m l (f l)"
    "\<forall>l l'. l \<noteq> l' \<longrightarrow> listas m l \<noteq> None \<longrightarrow> listas m l' \<noteq> None \<longrightarrow> set (f l) \<inter> set (f l') = {}"
    by (rule inv_obtener)
  have "inv (construir m l)"
  proof (rule invI [where f = "f(l := [])"])
    show "\<forall>a. libre (construir m l) \<le> a \<longrightarrow> nodos (construir m l) a = None"
      using inv_libre [OF i] by (simp add: construir_def)
    show "\<forall>k. listas (construir m l) k \<noteq> None \<longrightarrow> lista_en (construir m l) k ((f(l := [])) k)"
      using este otros f(1) by (auto simp: construir_def)
    show "\<forall>k k'. k \<noteq> k' \<longrightarrow> listas (construir m l) k \<noteq> None \<longrightarrow> listas (construir m l) k' \<noteq> None \<longrightarrow>
            set ((f(l := [])) k) \<inter> set ((f(l := [])) k') = {}"
      using f(2) by (auto simp: construir_def)
  qed
  then show ?thesis using este otros by blast
qed

lemma duplicar_bucle_ok:
  assumes "inv m" "l \<noteq> orig" "lista_en m l ts" "lista_en m orig os" "os = pre @ bs"
    "cadena (nodos m) nav bs"
  shows "\<exists>m' ts'. duplicar_bucle m l nav = Some m' \<and> inv m' \<and> lista_en m' l ts' \<and>
           valores (nodos m') ts' = valores (nodos m) ts @ valores (nodos m) bs \<and>
           dom (listas m') = dom (listas m) \<and>
           (\<forall>k cs. k \<noteq> l \<longrightarrow> lista_en m k cs \<longrightarrow>
               lista_en m' k cs \<and> (\<forall>a\<in>set cs. nodos m' a = nodos m a))"
  using assms
proof (induction bs arbitrary: m ts pre nav)
  case Nil
  then have "duplicar_bucle m l nav = Some m" by (subst duplicar_bucle.simps) simp
  then show ?case using Nil by (auto simp: valores_def)
next
  case (Cons b bs)
  note i = Cons.prems(1) and ne = Cons.prems(2) and lt = Cons.prems(3) and lo = Cons.prems(4)
  from Cons.prems(6) obtain n where n: "nav = Some b" "nodos m b = Some n"
    "cadena (nodos m) (siguiente n) bs"
    by (auto split: option.splits)
  from insertarAlFinal_ok [OF i lt, of "dato n"] obtain m1 where m1:
    "insertarAlFinal m l (dato n) = Some m1" "inv m1" "lista_en m1 l (ts @ [libre m])"
    "valores (nodos m1) (ts @ [libre m]) = valores (nodos m) ts @ [dato n]"
    "dom (listas m1) = dom (listas m)"
    "\<forall>k cs. k \<noteq> l \<longrightarrow> lista_en m k cs \<longrightarrow>
        lista_en m1 k cs \<and> (\<forall>a\<in>set cs. nodos m1 a = nodos m a)"
    by blast
  have o1: "lista_en m1 orig os" "\<forall>a\<in>set os. nodos m1 a = nodos m a"
    using m1(6) ne lo by (metis, metis)
  have b1: "nodos m1 b = Some n" using o1(2) Cons.prems(5) n(2) by simp
  have c1: "cadena (nodos m1) (siguiente n) bs"
    using n(3) o1(2) Cons.prems(5) by (auto intro: cadena_marco)
  have paso: "duplicar_bucle m l nav = duplicar_bucle m1 l (siguiente n)"
    using n(1,2) m1(1) b1 by (subst duplicar_bucle.simps) simp
  have os': "os = (pre @ [b]) @ bs" using Cons.prems(5) by simp
  from Cons.IH [OF m1(2) ne m1(3) o1(1) os' c1] obtain m' ts' where m':
    "duplicar_bucle m1 l (siguiente n) = Some m'" "inv m'" "lista_en m' l ts'"
    "valores (nodos m') ts' = valores (nodos m1) (ts @ [libre m]) @ valores (nodos m1) bs"
    "dom (listas m') = dom (listas m1)"
    "\<forall>k cs. k \<noteq> l \<longrightarrow> lista_en m1 k cs \<longrightarrow>
        lista_en m' k cs \<and> (\<forall>a\<in>set cs. nodos m' a = nodos m1 a)"
    by blast
  have vb: "valores (nodos m1) bs = valores (nodos m) bs"
    using o1(2) Cons.prems(5) by (intro valores_marco) simp
  have "valores (nodos m) (b # bs) = dato n # valores (nodos m) bs"
    using n(2) by (simp add: valores_def)
  then have v: "valores (nodos m') ts' = valores (nodos m) ts @ valores (nodos m) (b # bs)"
    using m'(4) m1(4) vb by simp
  have otros: "\<forall>k cs. k \<noteq> l \<longrightarrow> lista_en m k cs \<longrightarrow>
        lista_en m' k cs \<and> (\<forall>a\<in>set cs. nodos m' a = nodos m a)"
    using m1(6) m'(6) by (metis (no_types, lifting))
  show ?case using paso m'(1,2,3,5) m1(5) v otros by auto
qed

lemma duplicarDesde_ok:
  assumes i: "inv m" and ne: "l \<noteq> orig" and lt: "lista_en m l ts" and lo: "lista_en m orig os"
  shows "\<exists>m' ts'. duplicarDesde m l orig = Some m' \<and> inv m' \<and> lista_en m' l ts' \<and>
           valores (nodos m') ts' = valores (nodos m) ts @ valores (nodos m) os \<and>
           dom (listas m') = dom (listas m) \<and>
           (\<forall>k cs. k \<noteq> l \<longrightarrow> lista_en m k cs \<longrightarrow>
               lista_en m' k cs \<and> (\<forall>a\<in>set cs. nodos m' a = nodos m a))"
proof -
  from lo obtain Lo where Lo: "listas m orig = Some Lo" "cadena (nodos m) (primero Lo) os"
    by (auto simp: lista_en_def split: option.splits)
  have "duplicar_bucle m l None = Some m" by (subst duplicar_bucle.simps) simp
  then have "duplicarDesde m l orig = duplicar_bucle m l (primero Lo)"
    using Lo(1) by (simp add: duplicarDesde_def)
  then show ?thesis
    using duplicar_bucle_ok [OF i ne lt lo _ Lo(2), of "[]"] by simp
qed

subsubsection \<open>Observers on a well-formed list\<close>

lemma fold_snoc: "fold (\<lambda>x visitados. visitados @ [x]) xs ys = ys @ xs"
  by (induction xs arbitrary: ys) simp_all

lemma iterar_lista_en:
  "lista_en m l as \<Longrightarrow> iterar m l operacion s = Some (fold operacion (valores (nodos m) as) s)"
  by (auto simp: lista_en_def iterar_def iterar_desde_cadena split: option.splits)

lemma secuencia_de_lista_en: "lista_en m l as \<Longrightarrow> secuencia_de m l = Some (valores (nodos m) as)"
  by (simp add: secuencia_de_def iterar_lista_en fold_snoc)

lemma nodos_de_lista_en: "lista_en m l as \<Longrightarrow> nodos_de m l = Some as"
  by (auto simp: lista_en_def nodos_de_def nodos_desde_cadena split: option.splits)

lemma getTamanio_lista_en: "lista_en m l as \<Longrightarrow> getTamanio m l = Some (int (length as))"
  by (auto simp: lista_en_def getTamanio_def split: option.splits)

lemma estaVacia_lista_en: "lista_en m l as \<Longrightarrow> estaVacia m l = Some (as = [])"
  by (cases as) (auto simp: lista_en_def estaVacia_def split: option.splits)

lemma secuencia_de_listas: "secuencia_de m l = Some xs \<Longrightarrow> listas m l \<noteq> None"
  by (auto simp: secuencia_de_def iterar_def split: option.splits)

lemma secuencia_de_inv:
  assumes "inv m" "secuencia_de m l = Some xs"
  obtains as where "lista_en m l as" "valores (nodos m) as = xs" "length as = length xs"
proof -
  from lista_en_existe [OF assms(1) secuencia_de_listas [OF assms(2)]]
  obtain as where as: "lista_en m l as" by blast
  then have "valores (nodos m) as = xs" using assms(2) by (simp add: secuencia_de_lista_en)
  then show ?thesis using that as length_valores [of "nodos m" as] by auto
qed

subsubsection \<open>Every reachable memory satisfies the invariant\<close>

lemma inv_inicial: "inv mem_inicial"
  by (rule invI [where f = "\<lambda>_. []"]) (simp_all add: mem_inicial_def)

lemma insertarAlFinal_listas: "insertarAlFinal m l v = Some m' \<Longrightarrow> listas m l \<noteq> None"
  by (auto simp: insertarAlFinal_def split: option.splits)

lemma vaciar_listas: "vaciar m l = Some m' \<Longrightarrow> listas m l \<noteq> None"
  by (subst (asm) vaciar.simps) (auto split: option.splits)

lemma duplicarDesde_listas: "duplicarDesde m l orig = Some m' \<Longrightarrow> listas m orig \<noteq> None"
  by (auto simp: duplicarDesde_def split: option.splits)

lemma insertarAlFinal_inv: "inv m \<Longrightarrow> insertarAlFinal m l v = Some m' \<Longrightarrow> inv m'"
  using insertarAlFinal_ok [of m l _ v] lista_en_existe [of m l] insertarAlFinal_listas [of m l v m']
  by fastforce

lemma vaciar_inv: "inv m \<Longrightarrow> vaciar m l = Some m' \<Longrightarrow> inv m'"
  using vaciar_ok [of m l] lista_en_existe [of m l] vaciar_listas [of m l m']
  by fastforce

lemma construir_copia_ok:
  assumes i: "inv m" and n: "listas m B = None" and ne: "A \<noteq> B" and la: "lista_en m A as"
  shows "\<exists>m1 bs. construir_copia m B A = Some m1 \<and> inv m1 \<and> lista_en m1 B bs \<and>
           valores (nodos m1) bs = valores (nodos m) as \<and>
           lista_en m1 A as \<and> (\<forall>a\<in>set as. nodos m1 a = nodos m a)"
proof -
  note c = construir_ok [OF i n]
  have la0: "lista_en (construir m B) A as" using c ne la by blast
  have n0: "nodos (construir m B) = nodos m" by (simp add: construir_def)
  have c1: "inv (construir m B)" and c2: "lista_en (construir m B) B []" using c by simp_all
  from duplicarDesde_ok [OF c1 ne [symmetric] c2 la0]
  obtain m1 bs where m1: "duplicarDesde (construir m B) B A = Some m1" "inv m1" "lista_en m1 B bs"
    "valores (nodos m1) bs = valores (nodos (construir m B)) [] @ valores (nodos (construir m B)) as"
    "\<forall>k cs. k \<noteq> B \<longrightarrow> lista_en (construir m B) k cs \<longrightarrow>
        lista_en m1 k cs \<and> (\<forall>a\<in>set cs. nodos m1 a = nodos (construir m B) a)"
    by blast
  have "lista_en m1 A as \<and> (\<forall>a\<in>set as. nodos m1 a = nodos m a)"
    using m1(5) [rule_format, OF ne la0] n0 by simp
  moreover have "valores (nodos m1) bs = valores (nodos m) as"
    using m1(4) n0 by (simp add: valores_def)
  ultimately show ?thesis using m1(1,2,3) by (auto simp: construir_copia_def)
qed

lemma asignar_ok:
  assumes i: "inv m" and n: "listas m B \<noteq> None" and ne: "A \<noteq> B" and la: "lista_en m A as"
  shows "\<exists>m1 bs. asignar m B A = Some m1 \<and> inv m1 \<and> lista_en m1 B bs \<and>
           valores (nodos m1) bs = valores (nodos m) as \<and>
           lista_en m1 A as \<and> (\<forall>a\<in>set as. nodos m1 a = nodos m a)"
proof -
  from lista_en_existe [OF i n] obtain ts where ts: "lista_en m B ts" by blast
  from vaciar_ok [OF i ts] obtain m0 where m0: "vaciar m B = Some m0" "inv m0" "lista_en m0 B []"
    "\<forall>k cs. k \<noteq> B \<longrightarrow> lista_en m k cs \<longrightarrow>
        lista_en m0 k cs \<and> (\<forall>a\<in>set cs. nodos m0 a = nodos m a)"
    by blast
  have la0: "lista_en m0 A as" "\<forall>a\<in>set as. nodos m0 a = nodos m a"
    using m0(4) [rule_format, OF ne la] by simp_all
  from duplicarDesde_ok [OF m0(2) ne [symmetric] m0(3) la0(1)]
  obtain m1 bs where m1: "duplicarDesde m0 B A = Some m1" "inv m1" "lista_en m1 B bs"
    "valores (nodos m1) bs = valores (nodos m0) [] @ valores (nodos m0) as"
    "\<forall>k cs. k \<noteq> B \<longrightarrow> lista_en m0 k cs \<longrightarrow>
        lista_en m1 k cs \<and> (\<forall>a\<in>set cs. nodos m1 a = nodos m0 a)"
    by blast
  have a1: "lista_en m1 A as \<and> (\<forall>a\<in>set as. nodos m1 a = nodos m a)"
    using m1(5) [rule_format, OF ne la0(1)] la0(2) by simp
  have "valores (nodos m0) as = valores (nodos m) as"
    using la0(2) by (intro valores_marco) simp
  then have "valores (nodos m1) bs = valores (nodos m) as"
    using m1(4) by (simp add: valores_def)
  then show ?thesis using m0(1) m1(1,2,3) a1 ne by (auto simp: asignar_def)
qed

lemma construir_copia_inv:
  assumes "inv m" "listas m l = None" "construir_copia m l orig = Some m'"
  shows "inv m'"
proof (cases "orig = l")
  case True
  have "duplicarDesde (construir m l) l l = Some (construir m l)"
    by (simp add: duplicarDesde_def construir_def)
  then show ?thesis using assms True construir_ok [OF assms(1,2)]
    by (simp add: construir_copia_def)
next
  case False
  have "listas (construir m l) orig \<noteq> None"
    using assms(3) by (auto simp: construir_copia_def dest: duplicarDesde_listas)
  then have "listas m orig \<noteq> None" using False by (simp add: construir_def)
  from lista_en_existe [OF assms(1) this] obtain os where "lista_en m orig os" by blast
  from construir_copia_ok [OF assms(1,2) False this] assms(3) show ?thesis by auto
qed

lemma asignar_inv:
  assumes "inv m" "asignar m l orig = Some m'"
  shows "inv m'"
proof (cases "orig = l")
  case True
  then show ?thesis using assms by (simp add: asignar_def)
next
  case False
  then obtain m0 where m0: "vaciar m l = Some m0" "duplicarDesde m0 l orig = Some m'"
    using assms(2) by (auto simp: asignar_def split: option.splits)
  have l: "listas m l \<noteq> None" using m0(1) by (rule vaciar_listas)
  from lista_en_existe [OF assms(1) l] obtain ts where ts: "lista_en m l ts" by blast
  from vaciar_ok [OF assms(1) ts] m0(1) have d: "dom (listas m0) = dom (listas m)" by auto
  have "listas m0 orig \<noteq> None" using m0(2) by (rule duplicarDesde_listas)
  then have "listas m orig \<noteq> None" using d by blast
  from lista_en_existe [OF assms(1) this] obtain os where "lista_en m orig os" by blast
  from asignar_ok [OF assms(1) l False this] assms(2) show ?thesis by auto
qed

lemma lista_en_quitar:
  "k \<noteq> l \<Longrightarrow> lista_en (m\<lparr>listas := (listas m)(l := None)\<rparr>) k as = lista_en m k as"
  by (simp add: lista_en_def cong: option.case_cong)

lemma inv_quitar:
  assumes "inv m"
  shows "inv (m\<lparr>listas := (listas m)(l := None)\<rparr>)"
proof -
  define m' where "m' = m\<lparr>listas := (listas m)(l := None)\<rparr>"
  have m': "libre m' = libre m" "nodos m' = nodos m" "listas m' l = None"
    "\<And>k. k \<noteq> l \<Longrightarrow> listas m' k = listas m k"
    "\<And>k as. k \<noteq> l \<Longrightarrow> lista_en m' k as = lista_en m k as"
    by (simp_all add: m'_def lista_en_quitar)
  from assms obtain f where f: "\<forall>l. listas m l \<noteq> None \<longrightarrow> lista_en m l (f l)"
    "\<forall>l l'. l \<noteq> l' \<longrightarrow> listas m l \<noteq> None \<longrightarrow> listas m l' \<noteq> None \<longrightarrow> set (f l) \<inter> set (f l') = {}"
    by (rule inv_obtener)
  have "inv m'"
  proof (rule invI [where f = f])
    show "\<forall>a. libre m' \<le> a \<longrightarrow> nodos m' a = None"
      using inv_libre [OF assms] m'(1,2) by simp
    show "\<forall>k. listas m' k \<noteq> None \<longrightarrow> lista_en m' k (f k)"
    proof (intro allI impI)
      fix k assume "listas m' k \<noteq> None"
      then have "k \<noteq> l" using m'(3) by auto
      then show "lista_en m' k (f k)" using f(1) m'(4,5) \<open>listas m' k \<noteq> None\<close> by simp
    qed
    show "\<forall>k k'. k \<noteq> k' \<longrightarrow> listas m' k \<noteq> None \<longrightarrow> listas m' k' \<noteq> None \<longrightarrow>
            set (f k) \<inter> set (f k') = {}"
    proof (intro allI impI)
      fix k k' assume a: "k \<noteq> k'" "listas m' k \<noteq> None" "listas m' k' \<noteq> None"
      then have "k \<noteq> l" "k' \<noteq> l" using m'(3) by auto
      then show "set (f k) \<inter> set (f k') = {}" using f(2) m'(4) a by simp
    qed
  qed
  then show ?thesis by (simp add: m'_def)
qed

lemma destruir_inv: "inv m \<Longrightarrow> destruir m l = Some m' \<Longrightarrow> inv m'"
proof -
  assume i: "inv m" and d: "destruir m l = Some m'"
  then obtain m0 where m0: "vaciar m l = Some m0" "m' = m0\<lparr>listas := (listas m0)(l := None)\<rparr>"
    by (auto simp: destruir_def split: option.splits)
  from vaciar_inv [OF i m0(1)] show ?thesis unfolding m0(2) by (rule inv_quitar)
qed

lemma alcanzable_inv: "alcanzable m \<Longrightarrow> inv m"
proof (induction rule: alcanzable.induct)
  case alc_inicial
  show ?case by (rule inv_inicial)
next
  case (alc_construir m this)
  from construir_ok [OF alc_construir.IH alc_construir.hyps(2)] show ?case by simp
next
  case (alc_copia m this origen m')
  show ?case by (rule construir_copia_inv [OF alc_copia.IH alc_copia.hyps(2,3)])
next
  case (alc_insertar m this v m')
  show ?case by (rule insertarAlFinal_inv [OF alc_insertar.IH alc_insertar.hyps(2)])
next
  case (alc_asignar m this origen m')
  show ?case by (rule asignar_inv [OF alc_asignar.IH alc_asignar.hyps(2)])
next
  case (alc_vaciar m this m')
  show ?case by (rule vaciar_inv [OF alc_vaciar.IH alc_vaciar.hyps(2)])
next
  case (alc_destruir m this m')
  show ?case by (rule destruir_inv [OF alc_destruir.IH alc_destruir.hyps(2)])
qed

subsubsection \<open>The sequence view\<close>

lemma insertarAlFinal_sec_ok:
  assumes "alcanzable m" "secuencia_de m l = Some xs"
  shows "\<exists>m'. insertarAlFinal m l v = Some m' \<and> secuencia_de m' l = Some (insertarAlFinal_sec xs v)"
proof -
  note i = alcanzable_inv [OF assms(1)]
  from secuencia_de_inv [OF i assms(2)] obtain as where
    as: "lista_en m l as" "valores (nodos m) as = xs" by blast
  from insertarAlFinal_ok [OF i as(1), of v] obtain m' where
    "insertarAlFinal m l v = Some m'" "lista_en m' l (as @ [libre m])"
    "valores (nodos m') (as @ [libre m]) = valores (nodos m) as @ [v]"
    by blast
  then show ?thesis using as(2) by (simp add: secuencia_de_lista_en insertarAlFinal_sec_def)
qed

lemma iterar_sec_ok:
  assumes "alcanzable m" "secuencia_de m l = Some xs"
  shows "iterar m l operacion s = Some (iterar_sec operacion xs s)"
proof -
  from secuencia_de_inv [OF alcanzable_inv [OF assms(1)] assms(2)] obtain as where
    "lista_en m l as" "valores (nodos m) as = xs" by blast
  then show ?thesis by (simp add: iterar_lista_en iterar_sec_def)
qed

lemma estaVacia_sec_ok:
  assumes "alcanzable m" "secuencia_de m l = Some xs"
  shows "estaVacia m l = Some (estaVacia_sec xs)"
proof -
  from secuencia_de_inv [OF alcanzable_inv [OF assms(1)] assms(2)] obtain as where
    "lista_en m l as" "length as = length xs" by blast
  then show ?thesis by (auto simp: estaVacia_lista_en estaVacia_sec_def)
qed

lemma getTamanio_sec_ok:
  assumes "alcanzable m" "secuencia_de m l = Some xs"
  shows "getTamanio m l = Some (getTamanio_sec xs)"
proof -
  from secuencia_de_inv [OF alcanzable_inv [OF assms(1)] assms(2)] obtain as where
    "lista_en m l as" "length as = length xs" by blast
  then show ?thesis by (simp add: getTamanio_lista_en getTamanio_sec_def)
qed

subsubsection \<open>Runs of appends\<close>

lemma insertar_todos_ok:
  assumes "inv m" "lista_en m l as"
  shows "\<exists>m' as'. insertar_todos m l vs = Some m' \<and> inv m' \<and> lista_en m' l as' \<and>
           valores (nodos m') as' = valores (nodos m) as @ vs \<and>
           dom (listas m') = dom (listas m)"
  using assms
proof (induction vs arbitrary: m as)
  case Nil
  then show ?case by auto
next
  case (Cons v vs)
  from insertarAlFinal_ok [OF Cons.prems, of v] obtain m1 where m1:
    "insertarAlFinal m l v = Some m1" "inv m1" "lista_en m1 l (as @ [libre m])"
    "valores (nodos m1) (as @ [libre m]) = valores (nodos m) as @ [v]"
    "dom (listas m1) = dom (listas m)"
    by blast
  from Cons.IH [OF m1(2,3)] obtain m' as' where
    "insertar_todos m1 l vs = Some m'" "inv m'" "lista_en m' l as'"
    "valores (nodos m') as' = valores (nodos m1) (as @ [libre m]) @ vs"
    "dom (listas m') = dom (listas m1)"
    by blast
  then show ?case using m1(1,4,5) by auto
qed

lemma insertar_todos_alcanzable:
  "alcanzable m \<Longrightarrow> insertar_todos m l vs = Some m' \<Longrightarrow> alcanzable m'"
proof (induction vs arbitrary: m)
  case Nil
  then show ?case by simp
next
  case (Cons v vs)
  then obtain m1 where m1: "insertarAlFinal m l v = Some m1" "insertar_todos m1 l vs = Some m'"
    by (auto split: option.splits)
  from Cons.IH [OF alc_insertar [OF Cons.prems(1) m1(1)] m1(2)] show ?case .
qed

lemma lista_nueva_poblada:
  assumes a: "alcanzable m" and n: "listas m l = None"
  shows "\<exists>m'. insertar_todos (construir m l) l vs = Some m' \<and> alcanzable m' \<and>
           secuencia_de m' l = Some vs \<and> getTamanio m' l = Some (int (length vs)) \<and>
           dom (listas m') = insert l (dom (listas m))"
proof -
  note c = construir_ok [OF alcanzable_inv [OF a] n]
  have c1: "inv (construir m l)" and c2: "lista_en (construir m l) l []" using c by simp_all
  from insertar_todos_ok [OF c1 c2, of vs] obtain m' as' where m':
    "insertar_todos (construir m l) l vs = Some m'" "lista_en m' l as'"
    "valores (nodos m') as' = valores (nodos (construir m l)) [] @ vs"
    "dom (listas m') = dom (listas (construir m l))"
    by blast
  have v: "valores (nodos m') as' = vs" using m'(3) by (simp add: valores_def)
  then have "length as' = length vs" using length_valores [of "nodos m'" as'] by simp
  moreover have "alcanzable m'"
    by (rule insertar_todos_alcanzable [OF alc_construir [OF a n] m'(1)])
  moreover have "dom (listas m') = insert l (dom (listas m))"
    using m'(4) by (simp add: construir_def)
  ultimately show ?thesis
    using m'(1,2) v by (simp add: secuencia_de_lista_en getTamanio_lista_en)
qed

text \<open>
  C6: a list built by the default constructor and then given \<open>N\<close> appends, whatever the
  values, has \<^verbatim>\<open>getTamanio\<close> equal to \<open>N\<close>, and \<^verbatim>\<open>iterar\<close> returns after applying the
  operation to the appended values from the first to the last, once each: the captured state
  ends as the left-to-right fold of the operation over them.
\<close>

theorem insertar_todos_tamanio_orden:
  assumes "alcanzable m" "listas m l = None"
  shows "\<exists>m'. insertar_todos (construir m l) l vs = Some m' \<and>
           getTamanio m' l = Some (int (length vs)) \<and>
           iterar m' l operacion s = Some (fold operacion vs s) \<and>
           secuencia_de m' l = Some vs"
proof -
  from lista_nueva_poblada [OF assms, of vs] obtain m' where m':
    "insertar_todos (construir m l) l vs = Some m'" "alcanzable m'"
    "secuencia_de m' l = Some vs" "getTamanio m' l = Some (int (length vs))"
    by blast
  from iterar_sec_ok [OF m'(2,3)] have "iterar m' l operacion s = Some (fold operacion vs s)"
    by (simp add: iterar_sec_def)
  then show ?thesis using m' by simp
qed

theorem insertar_todos_tamanio_orden_witness:
  "alcanzable (mem_inicial :: int memoria) \<and> listas (mem_inicial :: int memoria) 0 = None \<and>
   (\<exists>m'. insertar_todos (construir mem_inicial 0) 0 [7, 5, 9 :: int] = Some m' \<and>
      getTamanio m' 0 = Some 3 \<and>
      iterar m' 0 (\<lambda>x visitados. visitados @ [x]) [] = Some [7, 5, 9] \<and>
      secuencia_de m' 0 = Some [7, 5, 9])"
proof -
  have a: "alcanzable (mem_inicial :: int memoria)" by (rule alc_inicial)
  have n: "listas (mem_inicial :: int memoria) 0 = None" by (simp add: mem_inicial_def)
  from insertar_todos_tamanio_orden [OF a n, of "[7, 5, 9]" "\<lambda>x visitados. visitados @ [x]" "[]"]
  show ?thesis using a n by simp
qed

subsubsection \<open>Count and clear\<close>

text \<open>
  C8: in every memory reached through the public operations, the stored count of every list
  is the number of nodes reachable from its head. \<^verbatim>\<open>vaciar\<close> returns, leaves the count at
  zero and no node reachable, and a second \<^verbatim>\<open>vaciar\<close> changes nothing.
\<close>

theorem elementos_nodos_alcanzables:
  assumes "alcanzable m" "listas m l = Some L"
  shows "(\<exists>as. nodos_desde (nodos m) (primero L) = Some as \<and> elementos L = int (length as)) \<and>
         (\<exists>m'. vaciar m l = Some m' \<and> alcanzable m' \<and> getTamanio m' l = Some 0 \<and>
               nodos_de m' l = Some [] \<and> vaciar m' l = Some m')"
proof -
  note i = alcanzable_inv [OF assms(1)]
  from lista_en_existe [OF i] assms(2) obtain as where as: "lista_en m l as" by auto
  then have "cadena (nodos m) (primero L) as" "elementos L = int (length as)"
    using assms(2) by (simp_all add: lista_en_def)
  then have p1: "\<exists>as. nodos_desde (nodos m) (primero L) = Some as \<and> elementos L = int (length as)"
    using nodos_desde_cadena by blast
  from vaciar_ok [OF i as] obtain m' where m': "vaciar m l = Some m'" "lista_en m' l []"
    by blast
  have "alcanzable m'" by (rule alc_vaciar [OF assms(1) m'(1)])
  then have "\<exists>m'. vaciar m l = Some m' \<and> alcanzable m' \<and> getTamanio m' l = Some 0 \<and>
               nodos_de m' l = Some [] \<and> vaciar m' l = Some m'"
    using m' getTamanio_lista_en [OF m'(2)] nodos_de_lista_en [OF m'(2)] vaciar_vacia [OF m'(2)]
    by simp
  with p1 show ?thesis by simp
qed

theorem elementos_nodos_alcanzables_witness:
  "\<exists>m L. insertar_todos (construir mem_inicial 0) 0 [7, 5, 9 :: int] = Some m \<and>
      alcanzable m \<and> listas m 0 = Some L \<and>
      (\<exists>as. nodos_desde (nodos m) (primero L) = Some as \<and> elementos L = int (length as)) \<and>
      (\<exists>m'. vaciar m 0 = Some m' \<and> alcanzable m' \<and> getTamanio m' 0 = Some 0 \<and>
            nodos_de m' 0 = Some [] \<and> vaciar m' 0 = Some m')"
proof -
  have a: "alcanzable (mem_inicial :: int memoria)" by (rule alc_inicial)
  have n: "listas (mem_inicial :: int memoria) 0 = None" by (simp add: mem_inicial_def)
  from lista_nueva_poblada [OF a n, of "[7, 5, 9]"] obtain m where m:
    "insertar_todos (construir mem_inicial 0) 0 [7, 5, 9 :: int] = Some m" "alcanzable m"
    "secuencia_de m 0 = Some [7, 5, 9]"
    by blast
  from secuencia_de_listas [OF m(3)] obtain L where L: "listas m 0 = Some L" by auto
  from elementos_nodos_alcanzables [OF m(2) L] m(1,2) L show ?thesis by blast
qed

subsubsection \<open>Deep copy\<close>

lemma copia_independiente_ok:
  assumes i: "inv m1" and ne: "A \<noteq> B" and la: "lista_en m1 A as" and lb: "lista_en m1 B bs"
    and va: "valores (nodos m1) as = xs" and vb: "valores (nodos m1) bs = xs"
  shows "copia_independiente m1 A B xs"
proof -
  have len: "length as = length xs" "length bs = length xs"
    using length_valores [of "nodos m1" as] length_valores [of "nodos m1" bs]
    unfolding va vb by simp_all
  from vaciar_ok [OF i lb] obtain m2 where m2: "vaciar m1 B = Some m2" "lista_en m2 B []"
    "\<forall>k cs. k \<noteq> B \<longrightarrow> lista_en m1 k cs \<longrightarrow>
        lista_en m2 k cs \<and> (\<forall>a\<in>set cs. nodos m2 a = nodos m1 a)"
    by blast
  have a2: "lista_en m2 A as" "\<forall>a\<in>set as. nodos m2 a = nodos m1 a"
    using m2(3) [rule_format, OF ne la] by simp_all
  have va2: "valores (nodos m2) as = xs" using va valores_marco [OF a2(2)] by simp
  have d: "set as \<inter> set bs = {}" by (rule lista_en_disjuntas [OF i ne la lb])
  show ?thesis
    unfolding copia_independiente_def
    using secuencia_de_lista_en [OF la] secuencia_de_lista_en [OF lb]
      getTamanio_lista_en [OF la] getTamanio_lista_en [OF lb]
      nodos_de_lista_en [OF la] nodos_de_lista_en [OF lb]
      secuencia_de_lista_en [OF a2(1)] secuencia_de_lista_en [OF m2(2)]
      getTamanio_lista_en [OF a2(1)] getTamanio_lista_en [OF m2(2)]
      nodos_de_lista_en [OF a2(1)] m2(1) va vb va2 len d
    by (simp add: valores_def)
qed

text \<open>
  C5: for a list \<open>A\<close> with values \<open>xs\<close> and another address \<open>B\<close>, the copy constructor
  (when no list lives at \<open>B\<close>) and the assignment operator (when one does) return and leave
  at \<open>B\<close> a list with the values \<open>xs\<close> in the same order, on nodes of its own; \<open>A\<close> keeps
  its values and its size, also after \<open>B\<close> is cleared. Assigning a list to itself changes
  nothing. The statement holds for every \<open>xs\<close>, the populated lists included.
\<close>

theorem copia_profunda:
  assumes "alcanzable m" "secuencia_de m A = Some xs" "A \<noteq> B"
  shows "(listas m B = None \<longrightarrow>
            (\<exists>m1. construir_copia m B A = Some m1 \<and> copia_independiente m1 A B xs)) \<and>
         (listas m B \<noteq> None \<longrightarrow>
            (\<exists>m1. asignar m B A = Some m1 \<and> copia_independiente m1 A B xs)) \<and>
         asignar m A A = Some m"
proof (intro conjI impI)
  note i = alcanzable_inv [OF assms(1)]
  from secuencia_de_inv [OF i assms(2)] obtain as where
    as: "lista_en m A as" "valores (nodos m) as = xs" by blast
  {
    assume n: "listas m B = None"
    from construir_copia_ok [OF i n assms(3) as(1)] obtain m1 bs where m1:
      "construir_copia m B A = Some m1" "inv m1" "lista_en m1 B bs"
      "valores (nodos m1) bs = valores (nodos m) as" "lista_en m1 A as"
      "\<forall>a\<in>set as. nodos m1 a = nodos m a"
      by blast
    have "valores (nodos m1) as = xs" using as(2) valores_marco [OF m1(6)] by simp
    from copia_independiente_ok [OF m1(2) assms(3) m1(5,3) this] m1(4) as(2) m1(1)
    show "\<exists>m1. construir_copia m B A = Some m1 \<and> copia_independiente m1 A B xs" by simp
  }
  {
    assume n: "listas m B \<noteq> None"
    from asignar_ok [OF i n assms(3) as(1)] obtain m1 bs where m1:
      "asignar m B A = Some m1" "inv m1" "lista_en m1 B bs"
      "valores (nodos m1) bs = valores (nodos m) as" "lista_en m1 A as"
      "\<forall>a\<in>set as. nodos m1 a = nodos m a"
      by blast
    have "valores (nodos m1) as = xs" using as(2) valores_marco [OF m1(6)] by simp
    from copia_independiente_ok [OF m1(2) assms(3) m1(5,3) this] m1(4) as(2) m1(1)
    show "\<exists>m1. asignar m B A = Some m1 \<and> copia_independiente m1 A B xs" by simp
  }
  show "asignar m A A = Some m" by (simp add: asignar_def)
qed

theorem copia_profunda_witness:
  "\<exists>m. insertar_todos (construir mem_inicial 0) 0 [7, 5, 9 :: int] = Some m \<and>
      alcanzable m \<and> secuencia_de m 0 = Some [7, 5, 9] \<and> listas m 1 = None \<and>
      (\<exists>m1. construir_copia m 1 0 = Some m1 \<and> copia_independiente m1 0 1 [7, 5, 9]) \<and>
      listas (construir m 1) 1 \<noteq> None \<and>
      (\<exists>m1. asignar (construir m 1) 1 0 = Some m1 \<and> copia_independiente m1 0 1 [7, 5, 9]) \<and>
      asignar m 0 0 = Some m"
proof -
  have a: "alcanzable (mem_inicial :: int memoria)" by (rule alc_inicial)
  have n: "listas (mem_inicial :: int memoria) 0 = None" by (simp add: mem_inicial_def)
  from lista_nueva_poblada [OF a n, of "[7, 5, 9]"] obtain m where m:
    "insertar_todos (construir mem_inicial 0) 0 [7, 5, 9 :: int] = Some m" "alcanzable m"
    "secuencia_de m 0 = Some [7, 5, 9]" "dom (listas m) = insert 0 (dom (listas (mem_inicial :: int memoria)))"
    by blast
  have n1: "listas m 1 = None" using m(4) by (auto simp: mem_inicial_def dom_def)
  have ne: "(0::nat) \<noteq> 1" by simp
  have a2: "alcanzable (construir m 1)" by (rule alc_construir [OF m(2) n1])
  have s2: "secuencia_de (construir m 1) 0 = Some [7, 5, 9]"
    using m(3) by (simp add: secuencia_de_def iterar_def construir_def cong: option.case_cong)
  have e2: "listas (construir m 1) 1 \<noteq> None" by (simp add: construir_def)
  from copia_profunda [OF m(2,3) ne] copia_profunda [OF a2 s2 ne] m n1 e2
  show ?thesis by blast
qed

text \<open>The operations run on a concrete memory: a list of three values, its copy, the copy cleared.\<close>

lemma ejemplo_copia_y_vaciado:
  "(case insertar_todos (construir mem_inicial 0) 0 [7, 5, 9 :: int] of
      None \<Rightarrow> None
    | Some m \<Rightarrow>
        (case construir_copia m 1 0 of
           None \<Rightarrow> None
         | Some m1 \<Rightarrow>
             (case vaciar m1 1 of
                None \<Rightarrow> None
              | Some m2 \<Rightarrow>
                  Some (secuencia_de m1 1, nodos_de m1 0, nodos_de m1 1,
                        secuencia_de m2 0, getTamanio m2 0, getTamanio m2 1))))
   = Some (Some [7, 5, 9], Some [0, 1, 2], Some [3, 4, 5], Some [7, 5, 9], Some 3, Some 0)"
  by (simp add: insertarAlFinal_def construir_def construir_copia_def duplicarDesde_def
      mem_inicial_def secuencia_de_def iterar_def nodos_de_def getTamanio_def Let_def
      ultimo_nodo.simps iterar_desde.simps vaciar.simps duplicar_bucle.simps nodos_desde.simps)

subsection \<open>The sensors\<close>

lemma Min_insert_min:
  "finite S \<Longrightarrow> Min (insert (min x v) S) = Min (insert (v::rat) (insert x S))"
proof (cases "S = {}")
  case True
  then show ?thesis by (simp add: min.commute)
next
  case False
  assume "finite S"
  with False show ?thesis by (simp add: min.assoc min.commute min.left_commute)
qed

lemma fold_minimo:
  "fold (\<lambda>medida valorMinimo. if medida < valorMinimo then medida else valorMinimo) xs (v::rat)
     = Min (insert v (set xs))"
proof (induction xs arbitrary: v)
  case Nil
  then show ?case by simp
next
  case (Cons x xs)
  have "(if x < v then x else v) = min x v" by (simp add: min_def)
  then show ?case using Cons Min_insert_min [of "set xs" x v] by simp
qed

lemma procesarLectura_Temperatura_general:
  "xs \<noteq> [] \<Longrightarrow> procesarLectura_Temperatura xs = ValorMinimo (Min (insert 999999 (set xs)))"
  by (simp add: procesarLectura_Temperatura_def estaVacia_sec_def iterar_sec_def fold_minimo)

lemma procesarLectura_Temperatura_bajo_centinela:
  assumes "x \<in> set xs" "x \<le> 999999"
  shows "procesarLectura_Temperatura xs = ValorMinimo (Min (set xs))"
proof -
  have ne: "xs \<noteq> []" "set xs \<noteq> {}" using assms(1) by auto
  have "Min (set xs) \<le> x" using assms(1) by simp
  then have "Min (set xs) \<le> 999999" using assms(2) by simp
  moreover have "Min (insert 999999 (set xs)) = min 999999 (Min (set xs))"
    using ne(2) by (intro Min_insert) simp_all
  ultimately have "Min (insert 999999 (set xs)) = Min (set xs)"
    by (simp add: min_def)
  then show ?thesis using procesarLectura_Temperatura_general [OF ne(1)] by simp
qed

lemma procesarLectura_Temperatura_ejemplo:
  "procesarLectura (SensorTemperatura nombre [5, 2, 9]) = ValorMinimo 2"
  by (simp add: procesarLectura_Temperatura_def estaVacia_sec_def iterar_sec_def)

text \<open>
  C1 says that the thermal sensor reports the minimum of all recorded values for every
  non-empty history, the running minimum starting from the first value and not from a fixed
  sentinel. The code starts the running minimum at \<^verbatim>\<open>999999.0f\<close>: what it reports is the
  minimum of the sentinel and the readings (\<open>procesarLectura_Temperatura_general\<close>), which
  is the minimum of the readings as soon as one of them is at most the sentinel
  (\<open>procesarLectura_Temperatura_bajo_centinela\<close>, and the example \<open>[5, 2, 9]\<close> above). On
  the history that holds the single reading \<open>1000000\<close> it reports the sentinel, a value that
  was never recorded.
\<close>

theorem procesarLectura_Temperatura_centinela:
  "procesarLectura (SensorTemperatura nombre [1000000]) = ValorMinimo 999999"
  by (simp add: procesarLectura_Temperatura_def estaVacia_sec_def iterar_sec_def)

lemma fold_media:
  "fold (\<lambda>medida (acumulador, cantidadDatos). (acumulador + medida, cantidadDatos + 1)) xs (a, c)
     = (a + sum_list xs, c + int (length xs))"
  by (induction xs arbitrary: a c) (simp_all add: add.assoc)

lemma procesarLectura_Presion_ejemplos:
  "procesarLectura (SensorPresion nombre [100, 200, 300]) = MediaAritmetica 200"
  "procesarLectura (SensorPresion nombre [101, 102]) = MediaAritmetica (203 / 2)"
  by (simp_all add: procesarLectura_Presion_def estaVacia_sec_def iterar_sec_def)


lemma sum_list_sint: "(sum_list xs :: int32) = word_of_int (sum_list (map sint xs))"
  by (induction xs) simp_all

lemma sint_suma:
  assumes "- (2 ^ 31) \<le> sum_list (map sint xs)" "sum_list (map sint xs) < 2 ^ 31"
  shows "sint (sum_list xs :: int32) = sum_list (map sint xs)"
proof -
  have "sint (word_of_int (sum_list (map sint xs)) :: int32)
          = signed_take_bit 31 (sum_list (map sint xs))"
    by (simp add: sint_sbintrunc')
  also have "\<dots> = sum_list (map sint xs)"
    using assms by (intro signed_take_bit_int_eq_self) simp_all
  finally show ?thesis by (simp add: sum_list_sint [symmetric])
qed

lemma procesarLectura_Presion_general:
  "xs \<noteq> [] \<Longrightarrow> - (2 ^ 31) \<le> sum_list (map sint xs) \<Longrightarrow> sum_list (map sint xs) < 2 ^ 31 \<Longrightarrow>
   procesarLectura_Presion xs
     = MediaAritmetica (rat_of_int (sum_list (map sint xs)) / rat_of_int (int (length xs)))"
  by (simp add: procesarLectura_Presion_def estaVacia_sec_def iterar_sec_def fold_media sint_suma)

text \<open>
  C4 says that the barometric sensor reports, for every non-empty history, the sum of the
  readings divided by their count, as a fraction. The division is one of fractions (the two
  examples of the claim are \<open>procesarLectura_Presion_ejemplos\<close>), and the report is the mean
  whenever the sum of the readings fits the 32-bit accumulator
  (\<open>procesarLectura_Presion_general\<close>). The accumulator is an \<^verbatim>\<open>int\<close>, though: on the
  readings \<open>2147483647\<close> and \<open>1\<close> the sum overflows and the mean reported is negative.
\<close>

theorem procesarLectura_Presion_desborde:
  "procesarLectura (SensorPresion nombre [2147483647, 1]) = MediaAritmetica (- 1073741824)"
  by (simp add: procesarLectura_Presion_def estaVacia_sec_def iterar_sec_def)

text \<open>
  C7: on an empty measurement history, as a sensor has it right after its construction, both
  variants report the empty record and compute no aggregate: neither the sentinel nor a mean
  appears. The division of the mean never has a zero count, whatever the sensor.
\<close>

theorem procesarLectura_registro_vacio:
  "procesarLectura (nuevo_SensorTemperatura identificador) = RegistroVacio \<and>
   procesarLectura (nuevo_SensorPresion identificador) = RegistroVacio \<and>
   procesarLectura (SensorTemperatura nombre []) = RegistroVacio \<and>
   procesarLectura (SensorPresion nombre []) = RegistroVacio \<and>
   procesarLectura sensor \<noteq> MediaNoFinita"
proof -
  have "procesarLectura sensor \<noteq> MediaNoFinita"
  proof (cases sensor)
    case (SensorTemperatura n xs)
    then show ?thesis by (simp add: procesarLectura_Temperatura_def)
  next
    case (SensorPresion n xs)
    then show ?thesis
      by (cases xs) (simp_all add: procesarLectura_Presion_def estaVacia_sec_def iterar_sec_def fold_media)
  qed
  then show ?thesis
    by (simp add: nuevo_SensorTemperatura_def nuevo_SensorPresion_def
        procesarLectura_Temperatura_def procesarLectura_Presion_def estaVacia_sec_def)
qed


subsection \<open>Lookup by name and the capture loop\<close>

lemma localizar_prefijo:
  "(fold (\<lambda>dispositivo dispositivoExistente.
            if getNombre (reg ! dispositivo) = identificador then Some dispositivo
            else dispositivoExistente) [0 ..< n] None = None
      \<longleftrightarrow> (\<forall>j<n. getNombre (reg ! j) \<noteq> identificador)) \<and>
   (\<forall>i. fold (\<lambda>dispositivo dispositivoExistente.
            if getNombre (reg ! dispositivo) = identificador then Some dispositivo
            else dispositivoExistente) [0 ..< n] None = Some i
      \<longleftrightarrow> (i < n \<and> getNombre (reg ! i) = identificador \<and>
           (\<forall>j. i < j \<and> j < n \<longrightarrow> getNombre (reg ! j) \<noteq> identificador)))"
proof (induction n)
  case 0
  then show ?case by simp
next
  case (Suc n)
  show ?case
  proof (cases "getNombre (reg ! n) = identificador")
    case True
    then show ?thesis
      by (auto simp: less_Suc_eq dest: Suc_lessI)
  next
    case False
    then show ?thesis using Suc
      by (auto simp: less_Suc_eq)
  qed
qed

lemma localizar_None:
  "localizar reg identificador = None \<longleftrightarrow> (\<forall>d\<in>set reg. getNombre d \<noteq> identificador)"
proof -
  have "(\<forall>d\<in>set reg. getNombre d \<noteq> identificador)
          = (\<forall>j<length reg. getNombre (reg ! j) \<noteq> identificador)"
    by (simp add: all_set_conv_all_nth)
  then show ?thesis
    unfolding localizar_def iterar_sec_def
    using localizar_prefijo [of reg identificador "length reg"] by blast
qed

lemma localizar_Some:
  "localizar reg identificador = Some i \<longleftrightarrow>
     (i < length reg \<and> getNombre (reg ! i) = identificador \<and>
      (\<forall>j. i < j \<and> j < length reg \<longrightarrow> getNombre (reg ! j) \<noteq> identificador))"
  unfolding localizar_def iterar_sec_def
  using localizar_prefijo [of reg identificador "length reg"]
  by blast

text \<open>
  C2 says that with two sensors of the same identifier in the registry the lookup returns the
  first one registered. The lambda overwrites the captured pointer at every match and the
  traversal never stops early, so the sensor returned is the last one registered with that
  identifier.
\<close>

theorem localizar_primero_counterexample:
  "localizar [SensorTemperatura ''TEMP-1'' [], SensorPresion ''TEMP-1'' []] ''TEMP-1'' = Some 1 \<and>
   localizar [SensorTemperatura ''TEMP-1'' [], SensorPresion ''TEMP-1'' []] ''TEMP-1'' \<noteq> Some 0"
  by (simp add: localizar_def iterar_sec_def)

text \<open>
  C2 as the code has it: of two sensors with the same identifier the lookup never returns the
  earlier one; it returns position \<open>i\<close> exactly when the sensor there has the identifier,
  character for character, and no later sensor has it; it returns nothing exactly when no
  sensor of the registry has the identifier.
\<close>

theorem localizar_ultimo:
  "(\<forall>i j. i < j \<and> j < length reg \<and>
          getNombre (reg ! i) = identificador \<and> getNombre (reg ! j) = identificador \<longrightarrow>
          localizar reg identificador \<noteq> Some i) \<and>
   (\<forall>i. localizar reg identificador = Some i \<longleftrightarrow>
        (i < length reg \<and> getNombre (reg ! i) = identificador \<and>
         (\<forall>j. i < j \<and> j < length reg \<longrightarrow> getNombre (reg ! j) \<noteq> identificador))) \<and>
   (localizar reg identificador = None \<longleftrightarrow>
        (\<forall>d\<in>set reg. getNombre d \<noteq> identificador))"
  using localizar_Some [of reg identificador] localizar_None [of reg identificador]
  by blast

theorem localizar_ultimo_witness:
  "localizar [SensorTemperatura ''TEMP-1'' [1], SensorPresion ''TEMP-1'' [], SensorPresion ''temp-1'' []]
      ''TEMP-1'' = Some 1 \<and>
   localizar [SensorTemperatura ''TEMP-1'' [1], SensorPresion ''TEMP-1'' [], SensorPresion ''temp-1'' []]
      ''Temp-1'' = None"
proof -
  let ?r = "[SensorTemperatura ''TEMP-1'' [1], SensorPresion ''TEMP-1'' [], SensorPresion ''temp-1'' []]"
  have a: "\<forall>j. 1 < j \<and> j < length ?r \<longrightarrow> getNombre (?r ! j) \<noteq> ''TEMP-1''"
    by (auto simp: less_Suc_eq numeral_3_eq_3)
  from localizar_ultimo [of ?r "''TEMP-1''"] a have "localizar ?r ''TEMP-1'' = Some 1"
    by simp
  moreover from localizar_ultimo [of ?r "''Temp-1''"] have "localizar ?r ''Temp-1'' = None"
    by simp
  ultimately show ?thesis by simp
qed

lemma procesar_linea_variante_P:
  assumes "\<not> contiene ''==='' buffer" "\<not> contiene ''Arduino'' buffer" "\<not> contiene ''Formato'' buffer"
    and "extraer_char buffer = Some (tipoDispositivo, resto)"
    and "tipoDispositivo = CHR ''P'' \<or> tipoDispositivo = CHR ''p''"
    and "extraer_palabra resto = Some (identificador, resto')"
    and "leer_int resto' = Some medicion"
    and "localizar (registro st) identificador = Some i"
    and "registro st ! i = SensorTemperatura nombre historial"
  shows "procesar_linea leer_float leer_int st buffer
           = (st\<lparr>contadorLecturas := contadorLecturas st + 1\<rparr>,
              [RX buffer, INFO_total (contadorLecturas st + 1)])"
proof -
  have "buffer \<noteq> []" using assms(4) by (auto simp: extraer_char_def)
  then show ?thesis using assms
    by (auto simp: procesar_linea_def contar_def Let_def)
qed

lemma procesar_linea_variante_T:
  assumes "\<not> contiene ''==='' buffer" "\<not> contiene ''Arduino'' buffer" "\<not> contiene ''Formato'' buffer"
    and "extraer_char buffer = Some (tipoDispositivo, resto)"
    and "tipoDispositivo = CHR ''T'' \<or> tipoDispositivo = CHR ''t''"
    and "extraer_palabra resto = Some (identificador, resto')"
    and "leer_float resto' = Some medicion"
    and "localizar (registro st) identificador = Some i"
    and "registro st ! i = SensorPresion nombre historial"
  shows "procesar_linea leer_float leer_int st buffer
           = (st\<lparr>contadorLecturas := contadorLecturas st + 1\<rparr>,
              [RX buffer, INFO_total (contadorLecturas st + 1)])"
proof -
  have "buffer \<noteq> []" using assms(4) by (auto simp: extraer_char_def)
  then show ?thesis using assms
    by (auto simp: procesar_linea_def contar_def Let_def)
qed

text \<open>
  C3 says that a line whose identifier is registered under the other variant is discarded with
  a warning, registry and history unchanged. The code leaves the registry and the history as
  they were (for every such line: \<open>procesar_linea_variante_P\<close>,
  \<open>procesar_linea_variante_T\<close>), but the failed \<^verbatim>\<open>dynamic_cast\<close> has no \<^verbatim>\<open>else\<close>
  branch: on the line \<^verbatim>\<open>P TEMP-1 10\<close> with \<^verbatim>\<open>TEMP-1\<close> registered as thermal the loop prints
  no warning, counts the line in \<^verbatim>\<open>contadorLecturas\<close> and announces it as captured.
\<close>

theorem procesar_linea_variante_sin_aviso:
  "leer_int '' 10'' = Some medicion \<Longrightarrow>
   procesar_linea leer_float leer_int
      \<lparr>registro = [SensorTemperatura ''TEMP-1'' historial], contadorLecturas = n\<rparr> ''P TEMP-1 10''
     = (\<lparr>registro = [SensorTemperatura ''TEMP-1'' historial], contadorLecturas = n + 1\<rparr>,
        [RX ''P TEMP-1 10'', INFO_total (n + 1)]) \<and>
   \<not> list_ex es_aviso [RX ''P TEMP-1 10'', INFO_total (n + 1)]"
  by (simp add: procesar_linea_def contar_def Let_def extraer_char_def extraer_palabra_def
      isspace_def localizar_def iterar_sec_def es_aviso_def)

theorem procesar_linea_variante_sin_aviso_witness:
  "procesar_linea (\<lambda>s. None) (\<lambda>s. if s = '' 10'' then Some 10 else None)
      \<lparr>registro = [SensorTemperatura ''TEMP-1'' [47 / 2]], contadorLecturas = 1\<rparr> ''P TEMP-1 10''
     = (\<lparr>registro = [SensorTemperatura ''TEMP-1'' [47 / 2]], contadorLecturas = 2\<rparr>,
        [RX ''P TEMP-1 10'', INFO_total 2])"
  using procesar_linea_variante_sin_aviso
    [of "\<lambda>s. if s = '' 10'' then Some 10 else None" 10 "\<lambda>s. None" "[47 / 2]" 1]
  by simp

subsection \<open>The serial line reader\<close>

lemma caracteres_append: "caracteres (xs @ ys) = caracteres xs @ caracteres ys"
  by (induction xs rule: caracteres.induct) auto

lemma caracteres_vacios:
  "\<forall>r\<in>set xs. r = BufferVacio \<Longrightarrow> caracteres xs = []"
  by (induction xs rule: caracteres.induct) auto

lemma bucle_exito:
  "leerLinea_bucle rs sec = Some (True, linea, resto) \<Longrightarrow>
     \<exists>saltadas cuerpo t. rs = saltadas @ cuerpo @ Caracter t # resto \<and> es_terminador t \<and>
        (\<forall>r\<in>set saltadas. saltable (sec = []) r) \<and> (\<forall>r\<in>set cuerpo. de_cuerpo r) \<and>
        linea = sec @ caracteres cuerpo \<and> linea \<noteq> []"
proof (induction rs sec rule: leerLinea_bucle.induct)
  case (1 secuencia)
  then show ?case by simp
next
  case (2 rs secuencia)
  then show ?case by simp
next
  case (3 rs secuencia)
  then obtain saltadas cuerpo t where
    h: "rs = saltadas @ cuerpo @ Caracter t # resto" "es_terminador t"
       "\<forall>r\<in>set saltadas. saltable (secuencia = []) r" "\<forall>r\<in>set cuerpo. de_cuerpo r"
       "linea = secuencia @ caracteres cuerpo" "linea \<noteq> []"
    by auto
  have "BufferVacio # rs = (BufferVacio # saltadas) @ cuerpo @ Caracter t # resto"
    using h(1) by simp
  moreover have "\<forall>r\<in>set (BufferVacio # saltadas). saltable (secuencia = []) r"
    using h(3) by (simp add: saltable_def)
  ultimately show ?case using h(2,4,5,6) by blast
next
  case (4 caracter rs secuencia)
  show ?case
  proof (cases "es_terminador caracter")
    case True
    show ?thesis
    proof (cases "secuencia = []")
      case vacia: True
      with True 4 obtain saltadas cuerpo t where
        h: "rs = saltadas @ cuerpo @ Caracter t # resto" "es_terminador t"
           "\<forall>r\<in>set saltadas. saltable (secuencia = []) r" "\<forall>r\<in>set cuerpo. de_cuerpo r"
           "linea = secuencia @ caracteres cuerpo" "linea \<noteq> []"
        by auto
      have "Caracter caracter # rs = (Caracter caracter # saltadas) @ cuerpo @ Caracter t # resto"
        using h(1) by simp
      moreover have "\<forall>r\<in>set (Caracter caracter # saltadas). saltable (secuencia = []) r"
        using h(3) True vacia by (simp add: saltable_def)
      ultimately show ?thesis using h(2,4,5,6) by blast
    next
      case False
      with True 4 have e: "linea = secuencia" "resto = rs" by auto
      have "Caracter caracter # rs = [] @ [] @ Caracter caracter # resto" using e by simp
      moreover have "linea = secuencia @ caracteres []" using e by simp
      ultimately show ?thesis using True False e(1)
        by (metis empty_iff list.set(1))
    qed
  next
    case False
    with 4 obtain saltadas cuerpo t where
      h: "rs = saltadas @ cuerpo @ Caracter t # resto" "es_terminador t"
         "\<forall>r\<in>set saltadas. saltable (secuencia @ [caracter] = []) r" "\<forall>r\<in>set cuerpo. de_cuerpo r"
         "linea = (secuencia @ [caracter]) @ caracteres cuerpo" "linea \<noteq> []"
      by auto
    have sv: "\<forall>r\<in>set saltadas. r = BufferVacio" using h(3) by (simp add: saltable_def)
    let ?cuerpo = "Caracter caracter # saltadas @ cuerpo"
    have "Caracter caracter # rs = [] @ ?cuerpo @ Caracter t # resto" using h(1) by simp
    moreover have "\<forall>r\<in>set ?cuerpo. de_cuerpo r"
      using h(4) sv False by (auto simp: de_cuerpo_def)
    moreover have "linea = secuencia @ caracteres ?cuerpo"
      using h(5) sv by (simp add: caracteres_append caracteres_vacios)
    ultimately show ?thesis using h(2,6)
      by (metis empty_iff list.set(1))
  qed
qed

lemma caracteres_cuerpo:
  "\<forall>r\<in>set cuerpo. de_cuerpo r \<Longrightarrow> \<forall>c\<in>set (caracteres cuerpo). \<not> es_terminador c"
  by (induction cuerpo rule: caracteres.induct) (auto simp: de_cuerpo_def)

lemma bucle_fallo:
  "leerLinea_bucle pre sec = None \<Longrightarrow>
     \<exists>parcial. leerLinea_bucle (pre @ FalloLectura # resto) sec = Some (False, parcial, resto)"
  by (induction pre sec rule: leerLinea_bucle.induct) (auto split: if_splits)

lemma bucle_cuerpo:
  "\<forall>r\<in>set cuerpo. de_cuerpo r \<Longrightarrow> es_terminador t \<Longrightarrow> sec @ caracteres cuerpo \<noteq> [] \<Longrightarrow>
   leerLinea_bucle (cuerpo @ Caracter t # resto) sec = Some (True, sec @ caracteres cuerpo, resto)"
proof (induction cuerpo arbitrary: sec)
  case Nil
  then show ?case by simp
next
  case (Cons r cuerpo)
  show ?case
  proof (cases r)
    case FalloLectura
    then show ?thesis using Cons.prems(1) by (simp add: de_cuerpo_def)
  next
    case BufferVacio
    then show ?thesis using Cons by simp
  next
    case (Caracter c)
    then have nt: "\<not> es_terminador c" using Cons.prems(1) by (simp add: de_cuerpo_def)
    have "leerLinea_bucle (cuerpo @ Caracter t # resto) (sec @ [c])
            = Some (True, (sec @ [c]) @ caracteres cuerpo, resto)"
      using Cons.prems by (intro Cons.IH) simp_all
    then show ?thesis using Caracter nt by simp
  qed
qed

lemma bucle_saltadas:
  "\<forall>r\<in>set saltadas. saltable (sec = []) r \<Longrightarrow>
   leerLinea_bucle (saltadas @ rs) sec = leerLinea_bucle rs sec"
proof (induction saltadas)
  case Nil
  then show ?case by simp
next
  case (Cons r saltadas)
  then have "r = BufferVacio \<or> (sec = [] \<and> (\<exists>c. r = Caracter c \<and> es_terminador c))"
    by (simp add: saltable_def)
  then show ?case using Cons by auto
qed

lemma bucle_converso:
  assumes "\<forall>r\<in>set saltadas. saltable (sec = []) r" "\<forall>r\<in>set cuerpo. de_cuerpo r"
    "es_terminador t" "sec @ caracteres cuerpo \<noteq> []"
  shows "leerLinea_bucle (saltadas @ cuerpo @ Caracter t # resto) sec
           = Some (True, sec @ caracteres cuerpo, resto)"
  using bucle_saltadas [OF assms(1)] bucle_cuerpo [OF assms(2,3,4)] by simp

lemma bucle_falso:
  "leerLinea_bucle rs sec = Some (False, linea, resto) \<Longrightarrow>
     \<exists>pre. rs = pre @ FalloLectura # resto \<and> FalloLectura \<notin> set pre"
proof (induction rs sec rule: leerLinea_bucle.induct)
  case (1 secuencia)
  then show ?case by simp
next
  case (2 rs secuencia)
  then have "FalloLectura # rs = [] @ FalloLectura # resto" by simp
  then show ?case by (metis empty_iff list.set(1))
next
  case (3 rs secuencia)
  then obtain pre where "rs = pre @ FalloLectura # resto" "FalloLectura \<notin> set pre" by auto
  then have "BufferVacio # rs = (BufferVacio # pre) @ FalloLectura # resto"
    "FalloLectura \<notin> set (BufferVacio # pre)" by simp_all
  then show ?case by blast
next
  case (4 caracter rs secuencia)
  then obtain pre where "rs = pre @ FalloLectura # resto" "FalloLectura \<notin> set pre"
    by (auto split: if_splits)
  then have "Caracter caracter # rs = (Caracter caracter # pre) @ FalloLectura # resto"
    "FalloLectura \<notin> set (Caracter caracter # pre)" by simp_all
  then show ?case by blast
qed

text \<open>
  C9, for a port that is open. When \<^verbatim>\<open>leerLinea\<close> returns true, the line is not empty,
  holds no terminator, and is made of exactly the characters read between the reads that were
  passed over (empty reads and terminators that follow a terminator) and the newline or
  carriage return that ended the call; the port is unchanged. Conversely, on every run of
  reads of that shape (any number of empty reads and terminators first, then a body with at
  least one character, then a terminator) the call returns true with the characters of the
  body: leading terminators are skipped, never answered with an empty line or a failure.
  When the transport reports a read error while the call is still waiting for the end of a
  line, the call returns false; and a false return has no other cause than a read error.
\<close>

theorem leerLinea_lineas_completas:
  "(leerLinea p secuencia rs = Some (True, linea, p', resto) \<longrightarrow>
      p' = p \<and> linea \<noteq> [] \<and> (\<forall>c\<in>set linea. \<not> es_terminador c) \<and>
      (\<exists>saltadas cuerpo t. rs = saltadas @ cuerpo @ Caracter t # resto \<and> es_terminador t \<and>
          (\<forall>r\<in>set saltadas. saltable True r) \<and> (\<forall>r\<in>set cuerpo. de_cuerpo r) \<and>
          linea = caracteres cuerpo)) \<and>
   (estadoConexion p \<and> 0 \<le> descriptorArchivo p \<and>
    (\<forall>r\<in>set saltadas'. saltable True r) \<and> (\<forall>r\<in>set cuerpo'. de_cuerpo r) \<and>
    caracteres cuerpo' \<noteq> [] \<and> es_terminador t' \<longrightarrow>
      leerLinea p secuencia (saltadas' @ cuerpo' @ Caracter t' # resto1)
        = Some (True, caracteres cuerpo', p, resto1)) \<and>
   (estadoConexion p \<and> 0 \<le> descriptorArchivo p \<and> leerLinea p secuencia pre = None \<longrightarrow>
      (\<exists>parcial. leerLinea p secuencia (pre @ FalloLectura # resto') = Some (False, parcial, p, resto'))) \<and>
   (estadoConexion p \<and> 0 \<le> descriptorArchivo p \<and>
    leerLinea p secuencia rs' = Some (False, linea', p'', resto2) \<longrightarrow>
      p'' = p \<and> (\<exists>pre'. rs' = pre' @ FalloLectura # resto2 \<and> FalloLectura \<notin> set pre'))"
proof (intro conjI impI)
  assume a: "leerLinea p secuencia rs = Some (True, linea, p', resto)"
  then have b: "leerLinea_bucle rs [] = Some (True, linea, resto)" and pp: "p' = p"
    by (auto simp: leerLinea_def split: if_splits option.splits)
  from bucle_exito [OF b] obtain saltadas cuerpo t where
    h: "rs = saltadas @ cuerpo @ Caracter t # resto" "es_terminador t"
       "\<forall>r\<in>set saltadas. saltable True r" "\<forall>r\<in>set cuerpo. de_cuerpo r"
       "linea = caracteres cuerpo" "linea \<noteq> []"
    by auto
  show "p' = p" by (rule pp)
  show "linea \<noteq> []" by (rule h(6))
  show "\<forall>c\<in>set linea. \<not> es_terminador c" using caracteres_cuerpo [OF h(4)] h(5) by simp
  show "\<exists>saltadas cuerpo t. rs = saltadas @ cuerpo @ Caracter t # resto \<and> es_terminador t \<and>
          (\<forall>r\<in>set saltadas. saltable True r) \<and> (\<forall>r\<in>set cuerpo. de_cuerpo r) \<and>
          linea = caracteres cuerpo"
    using h by blast
next
  assume a: "estadoConexion p \<and> 0 \<le> descriptorArchivo p \<and>
    (\<forall>r\<in>set saltadas'. saltable True r) \<and> (\<forall>r\<in>set cuerpo'. de_cuerpo r) \<and>
    caracteres cuerpo' \<noteq> [] \<and> es_terminador t'"
  then have s: "\<forall>r\<in>set saltadas'. saltable (([]::string) = []) r" by simp
  have c: "\<forall>r\<in>set cuerpo'. de_cuerpo r" and t: "es_terminador t'"
    and n: "[] @ caracteres cuerpo' \<noteq> []" using a by simp_all
  from bucle_converso [OF s c t n, of resto1] a
  show "leerLinea p secuencia (saltadas' @ cuerpo' @ Caracter t' # resto1)
        = Some (True, caracteres cuerpo', p, resto1)"
    by (simp add: leerLinea_def)
next
  assume a: "estadoConexion p \<and> 0 \<le> descriptorArchivo p \<and> leerLinea p secuencia pre = None"
  then have "leerLinea_bucle pre [] = None"
    by (auto simp: leerLinea_def split: option.splits)
  from bucle_fallo [OF this, of resto'] a
  show "\<exists>parcial. leerLinea p secuencia (pre @ FalloLectura # resto') = Some (False, parcial, p, resto')"
    by (auto simp: leerLinea_def)
next
  assume a: "estadoConexion p \<and> 0 \<le> descriptorArchivo p \<and>
    leerLinea p secuencia rs' = Some (False, linea', p'', resto2)"
  then have b: "leerLinea_bucle rs' [] = Some (False, linea', resto2)" and pp: "p'' = p"
    by (auto simp: leerLinea_def split: if_splits option.splits)
  show "p'' = p" by (rule pp)
  show "\<exists>pre'. rs' = pre' @ FalloLectura # resto2 \<and> FalloLectura \<notin> set pre'"
    by (rule bucle_falso [OF b])
qed

theorem leerLinea_lineas_completas_witness:
  "leerLinea puerto_abierto ''x''
      [Caracter (CHR 0x0D), Caracter (CHR 0x0A), BufferVacio, Caracter (CHR ''T''), BufferVacio,
       Caracter (CHR ''1''), Caracter (CHR 0x0A), Caracter (CHR ''P'')]
     = Some (True, ''T1'', puerto_abierto, [Caracter (CHR ''P'')]) \<and>
   ''T1'' \<noteq> [] \<and> \<not> es_terminador (CHR ''T'') \<and> \<not> es_terminador (CHR ''1'') \<and>
   estadoConexion puerto_abierto \<and> 0 \<le> descriptorArchivo puerto_abierto \<and>
   saltable True (Caracter (CHR 0x0A)) \<and> de_cuerpo (Caracter (CHR ''T'')) \<and>
   de_cuerpo (Caracter (CHR ''1'')) \<and> es_terminador (CHR 0x0A) \<and>
   leerLinea puerto_abierto ''x''
      ([Caracter (CHR 0x0A)] @ [Caracter (CHR ''T''), Caracter (CHR ''1'')] @
       Caracter (CHR 0x0A) # [])
     = Some (True, caracteres [Caracter (CHR ''T''), Caracter (CHR ''1'')], puerto_abierto, []) \<and>
   leerLinea puerto_abierto ''x'' [Caracter (CHR ''T'')] = None \<and>
   (\<exists>parcial. leerLinea puerto_abierto ''x'' ([Caracter (CHR ''T'')] @ FalloLectura # [Caracter (CHR ''1'')])
       = Some (False, parcial, puerto_abierto, [Caracter (CHR ''1'')])) \<and>
   leerLinea puerto_abierto ''x'' [Caracter (CHR 0x0A), FalloLectura, BufferVacio]
     = Some (False, [], puerto_abierto, [BufferVacio]) \<and>
   (\<exists>pre'. [Caracter (CHR 0x0A), FalloLectura, BufferVacio] = pre' @ FalloLectura # [BufferVacio] \<and>
        FalloLectura \<notin> set pre')"
proof -
  have a: "leerLinea puerto_abierto ''x''
      [Caracter (CHR 0x0D), Caracter (CHR 0x0A), BufferVacio, Caracter (CHR ''T''), BufferVacio,
       Caracter (CHR ''1''), Caracter (CHR 0x0A), Caracter (CHR ''P'')]
     = Some (True, ''T1'', puerto_abierto, [Caracter (CHR ''P'')])"
    by (simp add: leerLinea_def puerto_abierto_def abrir_def nuevo_SerialPort_def es_terminador_def)
  have b: "estadoConexion puerto_abierto \<and> 0 \<le> descriptorArchivo puerto_abierto \<and>
     leerLinea puerto_abierto ''x'' [Caracter (CHR ''T'')] = None"
    by (simp add: leerLinea_def puerto_abierto_def abrir_def nuevo_SerialPort_def es_terminador_def)
  have c: "saltable True (Caracter (CHR 0x0A)) \<and> de_cuerpo (Caracter (CHR ''T'')) \<and>
     de_cuerpo (Caracter (CHR ''1'')) \<and> es_terminador (CHR 0x0A)"
    by (simp add: saltable_def de_cuerpo_def es_terminador_def)
  have d: "leerLinea puerto_abierto ''x'' [Caracter (CHR 0x0A), FalloLectura, BufferVacio]
     = Some (False, [], puerto_abierto, [BufferVacio])"
    by (simp add: leerLinea_def puerto_abierto_def abrir_def nuevo_SerialPort_def es_terminador_def)
  from leerLinea_lineas_completas [of puerto_abierto "''x''" _ "''T1''" puerto_abierto "[Caracter (CHR ''P'')]"
      "[Caracter (CHR 0x0A)]" "[Caracter (CHR ''T''), Caracter (CHR ''1'')]" "CHR 0x0A" "[]"
      "[Caracter (CHR ''T'')]" "[Caracter (CHR ''1'')]"
      "[Caracter (CHR 0x0A), FalloLectura, BufferVacio]" "[]" puerto_abierto "[BufferVacio]"] a b c d
  show ?thesis by (simp add: es_terminador_def)
qed

text \<open>
  C10: on a port that is not open (one that was never opened, or one that \<^verbatim>\<open>cerrar\<close> was
  called on) \<^verbatim>\<open>leerLinea\<close> returns false at once: no result of the transport is consumed,
  and the port and the caller's string are as they were.
\<close>

theorem leerLinea_cerrado:
  "(\<not> estaAbierto p \<longrightarrow> leerLinea p secuencia rs = Some (False, secuencia, p, rs)) \<and>
   \<not> estaAbierto nuevo_SerialPort \<and>
   leerLinea (cerrar p) secuencia rs = Some (False, secuencia, cerrar p, rs)"
  by (auto simp: leerLinea_def estaAbierto_def nuevo_SerialPort_def cerrar_def abrir_def)

theorem leerLinea_cerrado_witness:
  "\<not> estaAbierto nuevo_SerialPort \<and>
   leerLinea nuevo_SerialPort ''abc'' [Caracter (CHR ''T''), Caracter (CHR 0x0A)]
     = Some (False, ''abc'', nuevo_SerialPort, [Caracter (CHR ''T''), Caracter (CHR 0x0A)])"
  using leerLinea_cerrado [of nuevo_SerialPort "''abc''" "[Caracter (CHR ''T''), Caracter (CHR 0x0A)]"]
  by simp


end
